theory Spec2Isabelle
  imports Main
begin

section \<open>Data model\<close>

text \<open>
  The embedding covers the five core functions of \<^verbatim>\<open>src/datavotes.js\<close>:
  \<^verbatim>\<open>initializeDatabase\<close>, \<^verbatim>\<open>getStoredVotes\<close>, \<^verbatim>\<open>saveVotesToDatabase\<close>,
  \<^verbatim>\<open>fetchVotesFromApi\<close> and \<^verbatim>\<open>pollVotes\<close>.

  A voter record is an element of the \<^verbatim>\<open>voters\<close> array of a source's JSON payload.
  Elements are taken to be well-formed objects with a string \<^verbatim>\<open>nickname\<close> and an
  integer \<^verbatim>\<open>votes\<close>; JavaScript numbers are modelled as unbounded integers.
\<close>

record VoterRecord =
  nickname :: string
  votes :: int

text \<open>
  The \<^verbatim>\<open>votes\<close> table, restricted to the two columns the code reads and writes
  (\<^verbatim>\<open>nickname\<close>, \<^verbatim>\<open>votes\<close>), as the list of its rows. Key comparison is string equality,
  and the stored count is an unbounded integer: a statement the server rejects (for
  instance because the sum does not fit the column) is a failed statement, which the
  environment below decides. The stored count of a nickname is the count of its row.
\<close>

type_synonym rows = "(string \<times> int) list"

definition voteCount :: "rows \<Rightarrow> string \<Rightarrow> int option" where
  "voteCount rs n = map_of rs n"

text \<open>
  \<^verbatim>\<open>INSERT INTO votes (nickname, votes) VALUES (?, ?)
  ON DUPLICATE KEY UPDATE votes = votes + VALUES(votes)\<close>
\<close>

fun upsert :: "string \<Rightarrow> int \<Rightarrow> rows \<Rightarrow> rows" where
  "upsert n v [] = [(n, v)]"
| "upsert n v ((k, c) # rs) =
     (if k = n then (k, c + v) # rs else (k, c) # upsert n v rs)"

text \<open>The rows that a list of carried-out insert statements leaves behind, applied in
  the order of the list.\<close>

fun applyRows :: "VoterRecord list \<Rightarrow> rows \<Rightarrow> rows" where
  "applyRows [] rs = rs"
| "applyRows (v # vs) rs = applyRows vs (upsert (nickname v) (votes v) rs)"

subsection \<open>The outside world\<close>

text \<open>
  What the network and the database answer, and when, is not decided by the program. The
  environment fixes the answer of every external interaction by the position of that
  interaction in the run (the \<open>clock\<close> of the world counts the interactions made so far).
  For an insert statement it also fixes how long the statement takes to settle, and, for
  a statement that is still in flight when \<^verbatim>\<open>saveVotesToDatabase\<close> returns, whether it has
  landed in the table when a later read is served.
\<close>

datatype db_outcome = Done | Failed string

datatype json_body =
    Unparsable string               \<comment> \<open>\<^verbatim>\<open>response.json()\<close> rejects\<close>
  | NoVotersArray                   \<comment> \<open>parsed, \<^verbatim>\<open>Array.isArray(data.voters)\<close> is false\<close>
  | VotersArray "VoterRecord list"  \<comment> \<open>parsed, \<^verbatim>\<open>data.voters\<close> is an array\<close>

datatype http_outcome =
    Rejected string                   \<comment> \<open>\<^verbatim>\<open>fetch(apiUrl)\<close> rejects\<close>
  | Response bool string json_body    \<comment> \<open>\<^verbatim>\<open>response.ok\<close>, \<^verbatim>\<open>response.statusText\<close>, body\<close>

record env =
  http :: "nat \<Rightarrow> string \<Rightarrow> http_outcome"   \<comment> \<open>answer to a \<^verbatim>\<open>fetch\<close> made at that moment\<close>
  onCreate :: "nat \<Rightarrow> db_outcome"            \<comment> \<open>answer to the \<^verbatim>\<open>CREATE TABLE\<close> statement\<close>
  onSelect :: "nat \<Rightarrow> db_outcome"            \<comment> \<open>answer to the \<^verbatim>\<open>SELECT\<close> statement\<close>
  onExecute :: "nat \<Rightarrow> db_outcome"           \<comment> \<open>answer to the \<^verbatim>\<open>INSERT\<close> issued at that moment\<close>
  latency :: "nat \<Rightarrow> nat"                   \<comment> \<open>time the \<^verbatim>\<open>INSERT\<close> issued at that moment takes\<close>
  landedBy :: "nat \<Rightarrow> nat \<Rightarrow> bool"           \<comment> \<open>the \<^verbatim>\<open>INSERT\<close> issued at the first moment and left
                                              in flight has landed when the read made at the
                                              second moment is served\<close>

datatype line =
    VotesTableInitialized
  | ErrorInitializing nat string
  | StackTrace
  | MaxRetriesReached
  | Retrying
  | StoredVotesRetrieved rows
  | ErrorFetchingStored string
  | NewVotesSaved
  | ErrorSavingVotes string
  | FetchingVotesFrom string
  | ErrorFetchingFrom string string
  | ApiResponseReceived
  | NewVotesToSave "VoterRecord list"
  | NoNewVotesToSave
  | InvalidResponseFormat
  | PollingApi string
  | FailedToFetch string string
  | TotalNewVotes "VoterRecord list"

datatype event =
    CreateTable              \<comment> \<open>\<^verbatim>\<open>db.query(createTableQuery)\<close>\<close>
  | Delay nat                \<comment> \<open>\<^verbatim>\<open>setTimeout(res, ms)\<close>, awaited\<close>
  | HttpGet string           \<comment> \<open>\<^verbatim>\<open>fetch(apiUrl)\<close>\<close>
  | SelectVotes              \<comment> \<open>\<^verbatim>\<open>db.query('SELECT nickname, votes FROM votes')\<close>\<close>
  | InsertVote string int    \<comment> \<open>\<^verbatim>\<open>db.execute(insertQuery, [nickname, votes])\<close>\<close>
  | Console line             \<comment> \<open>\<^verbatim>\<open>console.log\<close> / \<^verbatim>\<open>console.error\<close>\<close>

text \<open>
  The world: the table, holding what the statements that have landed so far left behind;
  the insert statements that the database carries out but that are still in flight, each
  with the moment it was issued (they are what \<^verbatim>\<open>saveVotesToDatabase\<close> leaves behind
  when it returns on a rejection); the clock and the trace. When a statement in flight
  lands is for the environment to say; since only a read observes the table, the model
  lets the landed statements join the table when a read is served.
\<close>

record world =
  table :: rows
  inflight :: "(nat \<times> VoterRecord) list"
  clock :: nat
  trace :: "event list"

definition emit :: "event \<Rightarrow> world \<Rightarrow> world" where
  "emit e s = s\<lparr>trace := trace s @ [e]\<rparr>"

definition tick :: "world \<Rightarrow> world" where
  "tick s = s\<lparr>clock := Suc (clock s)\<rparr>"

text \<open>An awaited call either yields a value or throws; \<open>Inl\<close> carries \<^verbatim>\<open>error.message\<close>.\<close>

type_synonym 'a result = "string + 'a"

definition db_create :: "env \<Rightarrow> world \<Rightarrow> unit result \<times> world" where
  "db_create e s =
     (let s1 = tick (emit CreateTable s)
      in case onCreate e (clock s) of
           Done \<Rightarrow> (Inr (), s1)
         | Failed m \<Rightarrow> (Inl m, s1))"

text \<open>
  The statements in flight that have landed by now become part of the table. A read that
  succeeds is served from the table so reached; a read that fails observes nothing.
\<close>

definition arrive :: "env \<Rightarrow> world \<Rightarrow> world" where
  "arrive e s =
     s\<lparr>table := applyRows (map snd (filter (\<lambda>(t, v). landedBy e t (clock s)) (inflight s)))
                  (table s),
       inflight := filter (\<lambda>(t, v). \<not> landedBy e t (clock s)) (inflight s)\<rparr>"

definition db_select :: "env \<Rightarrow> world \<Rightarrow> rows result \<times> world" where
  "db_select e s =
     (case onSelect e (clock s) of
        Done \<Rightarrow> (let s1 = arrive e s in (Inr (table s1), tick (emit SelectVotes s1)))
      | Failed m \<Rightarrow> (Inl m, tick (emit SelectVotes s)))"

text \<open>
  \<^verbatim>\<open>db.execute(insertQuery, [vote.nickname, vote.votes])\<close> issues the statement and hands back
  a promise: the moment of issue, the time the statement takes, the answer it will settle
  with, and the record it carries.
\<close>

record promise =
  issuedAt :: nat
  settlesAfter :: nat
  answer :: db_outcome
  vote :: VoterRecord

definition db_execute :: "env \<Rightarrow> string \<Rightarrow> int \<Rightarrow> world \<Rightarrow> promise \<times> world" where
  "db_execute e n v s =
     (\<lparr>issuedAt = clock s, settlesAfter = latency e (clock s), answer = onExecute e (clock s),
       vote = \<lparr>nickname = n, votes = v\<rparr>\<rparr>,
      tick (emit (InsertVote n v) s))"

definition http_get :: "env \<Rightarrow> string \<Rightarrow> world \<Rightarrow> http_outcome \<times> world" where
  "http_get e url s = (http e (clock s) url, tick (emit (HttpGet url) s))"

section \<open>initializeDatabase\<close>

definition maxRetries :: nat where
  "maxRetries = 5"

function initLoop :: "env \<Rightarrow> nat \<Rightarrow> world \<Rightarrow> unit result \<times> world" where
  "initLoop e retries s =
     (if retries < maxRetries then
        (case db_create e s of
           (Inr _, s1) \<Rightarrow> (Inr (), emit (Console VotesTableInitialized) s1)
         | (Inl msg, s1) \<Rightarrow>
             (let retries' = retries + 1;
                  s2 = emit (Console StackTrace)
                         (emit (Console (ErrorInitializing retries' msg)) s1)
              in if retries' \<ge> maxRetries
                 then initLoop e retries' (emit (Console MaxRetriesReached) s2)
                 else initLoop e retries'
                        (emit (Delay 5000) (emit (Console Retrying) s2))))
      else (Inr (), s))"
  by pat_completeness auto
termination
  by (relation "measure (\<lambda>(e, retries, s). maxRetries - retries)") auto

definition initializeDatabase :: "env \<Rightarrow> world \<Rightarrow> unit result \<times> world" where
  "initializeDatabase e s = initLoop e 0 s"

section \<open>getStoredVotes\<close>

definition getStoredVotes :: "env \<Rightarrow> world \<Rightarrow> rows result \<times> world" where
  "getStoredVotes e s =
     (case db_select e s of
        (Inr rs, s1) \<Rightarrow> (Inr rs, emit (Console (StoredVotesRetrieved rs)) s1)
      | (Inl msg, s1) \<Rightarrow> (Inr [], emit (Console (ErrorFetchingStored msg)) s1))"

section \<open>saveVotesToDatabase\<close>

text \<open>
  \<^verbatim>\<open>newVotes.map(vote => db.execute(insertQuery, [vote.nickname, vote.votes]))\<close>:
  every statement is issued, in array order; the result is the list of their promises.
\<close>

fun executeEach :: "env \<Rightarrow> VoterRecord list \<Rightarrow> world \<Rightarrow> promise list \<times> world" where
  "executeEach e [] s = ([], s)"
| "executeEach e (v # vs) s =
     (let (p, s1) = db_execute e (nickname v) (votes v) s;
          (ps, s2) = executeEach e vs s1
      in (p # ps, s2))"

text \<open>
  The rejection that arrives first: of the promises that reject, the one that settles
  soonest (the one issued first among those that settle at the same time), with the time
  it settles at and its message.
\<close>

fun firstRejection :: "promise list \<Rightarrow> (nat \<times> string) option" where
  "firstRejection [] = None"
| "firstRejection (p # ps) =
     (case answer p of
        Done \<Rightarrow> firstRejection ps
      | Failed m \<Rightarrow>
          (case firstRejection ps of
             None \<Rightarrow> Some (settlesAfter p, m)
           | Some (a, m') \<Rightarrow>
               if settlesAfter p \<le> a then Some (settlesAfter p, m) else Some (a, m')))"

text \<open>
  \<^verbatim>\<open>Promise.all\<close> fulfils once every promise has fulfilled, and otherwise rejects as soon as
  the first rejection arrives, with its message.
\<close>

definition promise_all :: "promise list \<Rightarrow> unit list result" where
  "promise_all ps =
     (case firstRejection ps of
        None \<Rightarrow> Inr (map (\<lambda>p. ()) ps)
      | Some (a, m) \<Rightarrow> Inl m)"

text \<open>
  Whether a promise has settled at the moment \<^verbatim>\<open>Promise.all\<close> settles: all have when it
  fulfils; when it rejects, those that settle before the first rejection arrives.
\<close>

definition settledWhen :: "promise list \<Rightarrow> promise \<Rightarrow> bool" where
  "settledWhen ps p =
     (case firstRejection ps of
        None \<Rightarrow> True
      | Some (a, m) \<Rightarrow> settlesAfter p < a)"

text \<open>
  Of the statements the database carries out: the records of those that have landed when
  \<^verbatim>\<open>await Promise.all(promises)\<close> is over, and those still in flight then. A rejected
  statement changes nothing, and a rejection after the first is not heard of.
\<close>

definition landed :: "promise list \<Rightarrow> VoterRecord list" where
  "landed ps = map vote (filter (\<lambda>p. answer p = Done \<and> settledWhen ps p) ps)"

definition flying :: "promise list \<Rightarrow> (nat \<times> VoterRecord) list" where
  "flying ps =
     map (\<lambda>p. (issuedAt p, vote p)) (filter (\<lambda>p. answer p = Done \<and> \<not> settledWhen ps p) ps)"

definition saveVotesToDatabase :: "env \<Rightarrow> VoterRecord list \<Rightarrow> world \<Rightarrow> unit result \<times> world" where
  "saveVotesToDatabase e newVotes s =
     (let (promises, s1) = executeEach e newVotes s;
          s2 = s1\<lparr>table := applyRows (landed promises) (table s1),
                  inflight := inflight s1 @ flying promises\<rparr>
      in case promise_all promises of
           Inr _ \<Rightarrow> (Inr (), emit (Console NewVotesSaved) s2)
         | Inl msg \<Rightarrow> (Inr (), emit (Console (ErrorSavingVotes msg)) s2))"

section \<open>fetchVotesFromApi\<close>

text \<open>The body of the \<^verbatim>\<open>try\<close> block (lines 88 to 116); \<open>Inl\<close> is a thrown error.\<close>

definition fetchVotesFromApi_try ::
  "env \<Rightarrow> string \<Rightarrow> world \<Rightarrow> VoterRecord list result \<times> world" where
  "fetchVotesFromApi_try e apiUrl s =
     (case http_get e apiUrl s of
        (Rejected msg, s1) \<Rightarrow> (Inl msg, s1)
      | (Response ok statusText body, s1) \<Rightarrow>
          if \<not> ok then (Inr [], emit (Console (ErrorFetchingFrom apiUrl statusText)) s1)
          else
            (case body of
               Unparsable msg \<Rightarrow> (Inl msg, s1)
             | NoVotersArray \<Rightarrow>
                 (Inr [], emit (Console InvalidResponseFormat)
                            (emit (Console ApiResponseReceived) s1))
             | VotersArray voters \<Rightarrow>
                 (case getStoredVotes e (emit (Console ApiResponseReceived) s1) of
                    (Inl msg, s2) \<Rightarrow> (Inl msg, s2)
                  | (Inr storedVotes, s2) \<Rightarrow>
                      (let storedNicknames = map fst storedVotes;
                           newVotes = filter (\<lambda>vote. nickname vote \<notin> set storedNicknames) voters
                       in if length newVotes > 0 then
                            (case saveVotesToDatabase e newVotes
                                    (emit (Console (NewVotesToSave newVotes)) s2) of
                               (Inl msg, s3) \<Rightarrow> (Inl msg, s3)
                             | (Inr _, s3) \<Rightarrow> (Inr newVotes, s3))
                          else (Inr newVotes, emit (Console NoNewVotesToSave) s2)))))"

definition fetchVotesFromApi ::
  "env \<Rightarrow> string \<Rightarrow> world \<Rightarrow> VoterRecord list result \<times> world" where
  "fetchVotesFromApi e apiUrl s =
     (case fetchVotesFromApi_try e apiUrl (emit (Console (FetchingVotesFrom apiUrl)) s) of
        (Inr r, s1) \<Rightarrow> (Inr r, s1)
      | (Inl msg, s1) \<Rightarrow> (Inr [], emit (Console (ErrorFetchingFrom apiUrl msg)) s1))"

section \<open>pollVotes\<close>

text \<open>The \<^verbatim>\<open>for (const apiUrl of apiUrls)\<close> loop, with \<^verbatim>\<open>newVotes\<close> as accumulator.\<close>

fun pollEach :: "env \<Rightarrow> string list \<Rightarrow> VoterRecord list \<Rightarrow> world \<Rightarrow> VoterRecord list \<times> world" where
  "pollEach e [] newVotes s = (newVotes, s)"
| "pollEach e (apiUrl # rest) newVotes s =
     (case fetchVotesFromApi e apiUrl (emit (Console (PollingApi apiUrl)) s) of
        (Inr votesFromApi, s1) \<Rightarrow> pollEach e rest (newVotes @ votesFromApi) s1
      | (Inl msg, s1) \<Rightarrow> pollEach e rest newVotes (emit (Console (FailedToFetch apiUrl msg)) s1))"

definition pollVotes :: "env \<Rightarrow> string list \<Rightarrow> world \<Rightarrow> VoterRecord list result \<times> world" where
  "pollVotes e apiUrls s =
     (let (newVotes, s1) = pollEach e apiUrls [] s
      in (Inr newVotes, emit (Console (TotalNewVotes newVotes)) s1))"

section \<open>Vocabulary of the statements\<close>

definition nicknames :: "rows \<Rightarrow> string set" where
  "nicknames rs = set (map fst rs)"

text \<open>
  Of a batch whose first statement is issued at moment \<open>t\<close>: the records whose statement
  the database carries out, and the messages of the statements it rejects.
\<close>

fun okRows :: "env \<Rightarrow> nat \<Rightarrow> VoterRecord list \<Rightarrow> VoterRecord list" where
  "okRows e t [] = []"
| "okRows e t (v # vs) =
     (case onExecute e t of
        Done \<Rightarrow> v # okRows e (Suc t) vs
      | Failed m \<Rightarrow> okRows e (Suc t) vs)"

fun rowFailures :: "env \<Rightarrow> nat \<Rightarrow> VoterRecord list \<Rightarrow> string list" where
  "rowFailures e t [] = []"
| "rowFailures e t (v # vs) =
     (case onExecute e t of
        Done \<Rightarrow> rowFailures e (Suc t) vs
      | Failed m \<Rightarrow> m # rowFailures e (Suc t) vs)"

text \<open>The promises of a batch whose first statement is issued at moment \<open>t\<close>.\<close>

fun promisesOf :: "env \<Rightarrow> nat \<Rightarrow> VoterRecord list \<Rightarrow> promise list" where
  "promisesOf e t [] = []"
| "promisesOf e t (v # vs) =
     \<lparr>issuedAt = t, settlesAfter = latency e t, answer = onExecute e t, vote = v\<rparr>
     # promisesOf e (Suc t) vs"

text \<open>The table as a read served at moment \<open>t\<close> finds it: the statements in flight that have
  landed by then are part of it.\<close>

definition seenAt :: "env \<Rightarrow> nat \<Rightarrow> world \<Rightarrow> rows" where
  "seenAt e t s =
     applyRows (map snd (filter (\<lambda>(i, v). landedBy e i t) (inflight s))) (table s)"

text \<open>The table and the statements in flight after a read attempted at moment \<open>t\<close>.\<close>

definition readTable :: "env \<Rightarrow> nat \<Rightarrow> world \<Rightarrow> rows" where
  "readTable e t s = (case onSelect e t of Done \<Rightarrow> seenAt e t s | Failed m \<Rightarrow> table s)"

definition readFlight :: "env \<Rightarrow> nat \<Rightarrow> world \<Rightarrow> (nat \<times> VoterRecord) list" where
  "readFlight e t s =
     (case onSelect e t of
        Done \<Rightarrow> filter (\<lambda>(i, v). \<not> landedBy e i t) (inflight s)
      | Failed m \<Rightarrow> inflight s)"

text \<open>The table once every statement in flight has landed.\<close>

definition settled :: "world \<Rightarrow> rows" where
  "settled s = applyRows (map snd (inflight s)) (table s)"

text \<open>Two tables store the same count for every nickname.\<close>

definition sameCounts :: "rows \<Rightarrow> rows \<Rightarrow> bool" where
  "sameCounts rs rs' = (\<forall>n. voteCount rs n = voteCount rs' n)"

text \<open>The votes that a list of records holds for a nickname.\<close>

definition votesFor :: "string \<Rightarrow> VoterRecord list \<Rightarrow> int" where
  "votesFor n vs = sum_list (map votes (filter (\<lambda>v. nickname v = n) vs))"

text \<open>What \<^verbatim>\<open>getStoredVotes\<close> hands back for a read made at moment \<open>t\<close> that finds the
  table \<open>rs\<close>.\<close>

definition snapshotAt :: "env \<Rightarrow> nat \<Rightarrow> rows \<Rightarrow> rows" where
  "snapshotAt e t rs = (case onSelect e t of Done \<Rightarrow> rs | Failed m \<Rightarrow> [])"

text \<open>The records whose nickname is not among those of \<open>snap\<close>.\<close>

definition novel :: "rows \<Rightarrow> VoterRecord list \<Rightarrow> VoterRecord list" where
  "novel snap voters = filter (\<lambda>vote. nickname vote \<notin> set (map fst snap)) voters"





text \<open>Counting in a trace: reads of the stored votes, and calls of \<^verbatim>\<open>saveVotesToDatabase\<close>
  (each call ends with exactly one of its two console lines).\<close>

definition selects :: "event list \<Rightarrow> nat" where
  "selects tr = length (filter (\<lambda>ev. ev = SelectVotes) tr)"

definition isSaveEnd :: "event \<Rightarrow> bool" where
  "isSaveEnd ev =
     (case ev of
        Console l \<Rightarrow> (case l of NewVotesSaved \<Rightarrow> True | ErrorSavingVotes m \<Rightarrow> True | _ \<Rightarrow> False)
      | _ \<Rightarrow> False)"

definition saveCalls :: "event list \<Rightarrow> nat" where
  "saveCalls tr = length (filter isSaveEnd tr)"

definition isSaveError :: "event \<Rightarrow> bool" where
  "isSaveError ev =
     (case ev of
        Console l \<Rightarrow> (case l of ErrorSavingVotes m \<Rightarrow> True | _ \<Rightarrow> False)
      | _ \<Rightarrow> False)"

text \<open>The insert statements of a trace, in the order they were issued.\<close>

definition inserted :: "event list \<Rightarrow> (string \<times> int) list" where
  "inserted tr = concat (map (\<lambda>ev. case ev of InsertVote n v \<Rightarrow> [(n, v)] | _ \<Rightarrow> []) tr)"

definition asRow :: "VoterRecord \<Rightarrow> string \<times> int" where
  "asRow v = (nickname v, votes v)"

text \<open>No stored count is lowered from \<open>rs\<close> to \<open>rs'\<close> (and no nickname is lost); every stored
  count of \<open>rs\<close> is at least 0.\<close>

definition neverLowered :: "rows \<Rightarrow> rows \<Rightarrow> bool" where
  "neverLowered rs rs' =
     (\<forall>n c. voteCount rs n = Some c \<longrightarrow> (\<exists>c'. voteCount rs' n = Some c' \<and> c \<le> c'))"

definition nonNegative :: "rows \<Rightarrow> bool" where
  "nonNegative rs = (\<forall>n c. voteCount rs n = Some c \<longrightarrow> 0 \<le> c)"


subsection \<open>Concrete worlds\<close>

definition emptyWorld :: world where
  "emptyWorld = \<lparr>table = [], inflight = [], clock = 0, trace = []\<rparr>"

definition quietEnv :: env where
  "quietEnv = \<lparr>http = (\<lambda>t url. Rejected ''offline''),
               onCreate = (\<lambda>t. Done), onSelect = (\<lambda>t. Done), onExecute = (\<lambda>t. Done),
       latency = (\<lambda>t. 0), landedBy = (\<lambda>t t'. True)\<rparr>"

definition brokenEnv :: env where
  "brokenEnv = \<lparr>http = (\<lambda>t url. Rejected ''offline''),
                onCreate = (\<lambda>t. Failed ''ECONNREFUSED''),
                onSelect = (\<lambda>t. Failed ''ECONNREFUSED''),
                onExecute = (\<lambda>t. Failed ''ECONNREFUSED''),
                latency = (\<lambda>t. 0), landedBy = (\<lambda>t t'. True)\<rparr>"



text \<open>The scenario of two sources that report the same nickname: \<open>A\<close> answers
  \<open>[{x, 3}]\<close>, \<open>B\<close> answers \<open>[{x, 2}, {y, 1}]\<close>, and the database does what it is asked.\<close>

definition exampleEnv :: env where
  "exampleEnv =
     \<lparr>http = (\<lambda>t url.
         if url = ''A'' then Response True ''OK'' (VotersArray [\<lparr>nickname = ''x'', votes = 3\<rparr>])
         else if url = ''B'' then Response True ''OK''
                (VotersArray [\<lparr>nickname = ''x'', votes = 2\<rparr>, \<lparr>nickname = ''y'', votes = 1\<rparr>])
         else Rejected ''unknown host''),
       onCreate = (\<lambda>t. Done), onSelect = (\<lambda>t. Done), onExecute = (\<lambda>t. Done),
       latency = (\<lambda>t. 0), landedBy = (\<lambda>t t'. True)\<rparr>"

text \<open>A store that already holds \<open>x\<close> with 3 votes.\<close>

definition storedWorld :: world where
  "storedWorld = \<lparr>table = [(''x'', 3)], inflight = [], clock = 0, trace = []\<rparr>"

text \<open>Every source answers \<open>[{x, 2}]\<close>; the read made at moment 3 (the second source's read,
  in a cycle over two sources started at moment 0) fails, every other statement succeeds.\<close>

definition flakyReadEnv :: env where
  "flakyReadEnv =
     \<lparr>http = (\<lambda>t url. Response True ''OK'' (VotersArray [\<lparr>nickname = ''x'', votes = 2\<rparr>])),
       onCreate = (\<lambda>t. Done),
       onSelect = (\<lambda>t. if t = 3 then Failed ''read timeout'' else Done),
       onExecute = (\<lambda>t. Done),
       latency = (\<lambda>t. 0), landedBy = (\<lambda>t t'. True)\<rparr>"

text \<open>Every source answers \<open>[{x, 2}]\<close> and the database does what it is asked.\<close>

definition steadyEnv :: env where
  "steadyEnv =
     \<lparr>http = (\<lambda>t url. Response True ''OK'' (VotersArray [\<lparr>nickname = ''x'', votes = 2\<rparr>])),
       onCreate = (\<lambda>t. Done), onSelect = (\<lambda>t. Done), onExecute = (\<lambda>t. Done),
       latency = (\<lambda>t. 0), landedBy = (\<lambda>t t'. True)\<rparr>"

text \<open>Every source answers \<open>[{x, 2}]\<close> and every read fails.\<close>

definition blindEnv :: env where
  "blindEnv =
     \<lparr>http = (\<lambda>t url. Response True ''OK'' (VotersArray [\<lparr>nickname = ''x'', votes = 2\<rparr>])),
       onCreate = (\<lambda>t. Done),
       onSelect = (\<lambda>t. Failed ''read timeout''),
       onExecute = (\<lambda>t. Done),
       latency = (\<lambda>t. 0), landedBy = (\<lambda>t t'. True)\<rparr>"

text \<open>A database that rejects the statements issued at moments 0 and 2 and carries out
  every other one; the statement issued at moment 2 settles first, then the one issued at
  moment 1, then the one issued at moment 0.\<close>

definition partialEnv :: env where
  "partialEnv =
     \<lparr>http = (\<lambda>t url. Rejected ''offline''),
       onCreate = (\<lambda>t. Done), onSelect = (\<lambda>t. Done),
       onExecute = (\<lambda>t. if t = 0 then Failed ''lock wait timeout''
                         else if t = 2 then Failed ''deadlock'' else Done),
       latency = (\<lambda>t. if t = 2 then 1 else if t = 1 then 2 else 3),
       landedBy = (\<lambda>t t'. True)\<rparr>"

definition threeRows :: "VoterRecord list" where
  "threeRows = [\<lparr>nickname = ''a'', votes = 1\<rparr>, \<lparr>nickname = ''b'', votes = 2\<rparr>,
                \<lparr>nickname = ''c'', votes = 3\<rparr>]"

text \<open>Source \<open>N\<close> answers \<open>[{x, -1}]\<close>; every other source answers \<open>[{x, 5}, {x, -3}]\<close>.\<close>

definition negativeEnv :: env where
  "negativeEnv =
     \<lparr>http = (\<lambda>t url.
         if url = ''N'' then Response True ''OK'' (VotersArray [\<lparr>nickname = ''x'', votes = - 1\<rparr>])
         else Response True ''OK''
                (VotersArray [\<lparr>nickname = ''x'', votes = 5\<rparr>, \<lparr>nickname = ''x'', votes = - 3\<rparr>])),
       onCreate = (\<lambda>t. Done), onSelect = (\<lambda>t. Done), onExecute = (\<lambda>t. Done),
       latency = (\<lambda>t. 0), landedBy = (\<lambda>t t'. True)\<rparr>"

text \<open>A race: source \<open>A\<close> answers \<open>[{a, 1}, {b, 2}]\<close>, every other source answers \<open>[{b, 2}]\<close>.
  The statement issued at moment 2 is rejected at once; the one issued at moment 3 is
  carried out but takes long, and has not landed when later reads are served.\<close>

definition raceEnv :: env where
  "raceEnv =
     \<lparr>http = (\<lambda>t url.
         if url = ''A'' then Response True ''OK''
                (VotersArray [\<lparr>nickname = ''a'', votes = 1\<rparr>, \<lparr>nickname = ''b'', votes = 2\<rparr>])
         else Response True ''OK'' (VotersArray [\<lparr>nickname = ''b'', votes = 2\<rparr>])),
       onCreate = (\<lambda>t. Done), onSelect = (\<lambda>t. Done),
       onExecute = (\<lambda>t. if t = 2 then Failed ''lock wait timeout'' else Done),
       latency = (\<lambda>t. if t = 3 then 9 else 0),
       landedBy = (\<lambda>t t'. False)\<rparr>"

lemmas run_defs =
  pollVotes_def fetchVotesFromApi_def fetchVotesFromApi_try_def http_get_def
  getStoredVotes_def db_select_def arrive_def saveVotesToDatabase_def db_execute_def
  promise_all_def settledWhen_def landed_def flying_def
  emit_def tick_def Let_def

section \<open>Basic facts\<close>

declare initLoop.simps [simp del]

lemma table_emit [simp]: "table (emit ev s) = table s"
  by (simp add: emit_def)

lemma inflight_emit [simp]: "inflight (emit ev s) = inflight s"
  by (simp add: emit_def)

lemma clock_emit [simp]: "clock (emit ev s) = clock s"
  by (simp add: emit_def)

lemma trace_emit [simp]: "trace (emit ev s) = trace s @ [ev]"
  by (simp add: emit_def)

lemma table_tick [simp]: "table (tick s) = table s"
  by (simp add: tick_def)

lemma inflight_tick [simp]: "inflight (tick s) = inflight s"
  by (simp add: tick_def)

lemma clock_tick [simp]: "clock (tick s) = Suc (clock s)"
  by (simp add: tick_def)

lemma trace_tick [simp]: "trace (tick s) = trace s"
  by (simp add: tick_def)

lemma seenAt_emit [simp]: "seenAt e t (emit ev s) = seenAt e t s"
  by (simp add: seenAt_def)

lemma seenAt_tick [simp]: "seenAt e t (tick s) = seenAt e t s"
  by (simp add: seenAt_def)

lemma readTable_emit [simp]: "readTable e t (emit ev s) = readTable e t s"
  by (simp add: readTable_def split: db_outcome.splits)

lemma readTable_tick [simp]: "readTable e t (tick s) = readTable e t s"
  by (simp add: readTable_def split: db_outcome.splits)

lemma readFlight_emit [simp]: "readFlight e t (emit ev s) = readFlight e t s"
  by (simp add: readFlight_def split: db_outcome.splits)

lemma readFlight_tick [simp]: "readFlight e t (tick s) = readFlight e t s"
  by (simp add: readFlight_def split: db_outcome.splits)

lemma settled_emit [simp]: "settled (emit ev s) = settled s"
  by (simp add: settled_def)

lemma voteCount_upsert:
  "voteCount (upsert n v rs) k =
     (if k = n then Some ((case voteCount rs n of None \<Rightarrow> 0 | Some c \<Rightarrow> c) + v)
      else voteCount rs k)"
  by (induction rs) (auto simp: voteCount_def)

lemma voteCount_None_iff: "voteCount rs n = None \<longleftrightarrow> n \<notin> nicknames rs"
  by (simp add: voteCount_def nicknames_def map_of_eq_None_iff)

lemma nicknames_upsert: "nicknames (upsert n v rs) = insert n (nicknames rs)"
  by (induction n v rs rule: upsert.induct) (simp_all add: nicknames_def insert_commute)

lemma nicknames_applyRows: "nicknames (applyRows vs rs) = nicknames rs \<union> nickname ` set vs"
  by (induction vs arbitrary: rs) (auto simp: nicknames_upsert)

lemma applyRows_append: "applyRows (xs @ ys) rs = applyRows ys (applyRows xs rs)"
  by (induction xs arbitrary: rs) simp_all

lemma votesFor_Nil [simp]: "votesFor n [] = 0"
  by (simp add: votesFor_def)

lemma votesFor_Cons:
  "votesFor n (v # vs) = (if nickname v = n then votes v else 0) + votesFor n vs"
  by (simp add: votesFor_def)

lemma votesFor_append: "votesFor n (xs @ ys) = votesFor n xs + votesFor n ys"
  by (simp add: votesFor_def)

lemma votesFor_absent: "n \<notin> nickname ` set vs \<Longrightarrow> votesFor n vs = 0"
  by (induction vs) (auto simp: votesFor_Cons)

text \<open>The count that a table stores for a nickname after a list of carried-out statements:
  what was stored, or 0, plus the votes of the statements for that nickname.\<close>

lemma voteCount_applyRows:
  "voteCount (applyRows vs rs) n =
     (if n \<in> nickname ` set vs
      then Some ((case voteCount rs n of None \<Rightarrow> 0 | Some c \<Rightarrow> c) + votesFor n vs)
      else voteCount rs n)"
proof (induction vs arbitrary: rs)
  case Nil
  show ?case by simp
next
  case (Cons v vs)
  show ?case
    using votesFor_absent [of n vs]
    by (simp add: Cons.IH voteCount_upsert votesFor_Cons)
qed

lemma sameCounts_refl: "sameCounts rs rs"
  by (simp add: sameCounts_def)

lemma sameCounts_sym: "sameCounts a b \<Longrightarrow> sameCounts b a"
  by (simp add: sameCounts_def)

lemma sameCounts_trans: "sameCounts a b \<Longrightarrow> sameCounts b c \<Longrightarrow> sameCounts a c"
  by (simp add: sameCounts_def)

lemma sameCounts_applyRows:
  assumes "sameCounts rs rs'"
    and "nickname ` set xs = nickname ` set ys"
    and "\<forall>n. votesFor n xs = votesFor n ys"
  shows "sameCounts (applyRows xs rs) (applyRows ys rs')"
  using assms by (simp add: sameCounts_def voteCount_applyRows)

lemma set_okRows: "set (okRows e t vs) \<subseteq> set vs"
  by (induction vs arbitrary: t) (auto split: db_outcome.splits)


subsection \<open>The batch of statements\<close>

lemma executeEach_promises: "fst (executeEach e vs s) = promisesOf e (clock s) vs"
  by (induction vs arbitrary: s) (simp_all add: db_execute_def case_prod_beta)

lemma executeEach_table: "table (snd (executeEach e vs s)) = table s"
  by (induction vs arbitrary: s) (simp_all add: db_execute_def case_prod_beta)

lemma executeEach_inflight: "inflight (snd (executeEach e vs s)) = inflight s"
  by (induction vs arbitrary: s) (simp_all add: db_execute_def case_prod_beta)

lemma executeEach_clock: "clock (snd (executeEach e vs s)) = clock s + length vs"
  by (induction vs arbitrary: s) (simp_all add: db_execute_def case_prod_beta)

lemma executeEach_trace:
  "trace (snd (executeEach e vs s)) = trace s @ map (\<lambda>v. InsertVote (nickname v) (votes v)) vs"
  by (induction vs arbitrary: s) (simp_all add: db_execute_def case_prod_beta)

lemma firstRejection_None_iff:
  "firstRejection ps = None \<longleftrightarrow> (\<forall>p\<in>set ps. answer p = Done)"
  by (induction ps) (auto split: db_outcome.splits option.splits)

lemma firstRejection_rowFailures:
  "firstRejection (promisesOf e t vs) = None \<longleftrightarrow> rowFailures e t vs = []"
  by (induction vs arbitrary: t) (auto split: db_outcome.splits option.splits)

text \<open>The first rejection is the message of a rejected statement, and no rejected
  statement settles before it.\<close>

lemma firstRejection_Some:
  "firstRejection ps = Some (a, m) \<Longrightarrow>
     (\<exists>p\<in>set ps. answer p = Failed m \<and> settlesAfter p = a)
     \<and> (\<forall>q\<in>set ps. answer q \<noteq> Done \<longrightarrow> a \<le> settlesAfter q)"
proof (induction ps arbitrary: a m)
  case Nil
  then show ?case by simp
next
  case (Cons p ps)
  show ?case
  proof (cases "answer p")
    case Done
    then show ?thesis using Cons by auto
  next
    case (Failed mp)
    show ?thesis
    proof (cases "firstRejection ps")
      case None
      then have "\<forall>q\<in>set ps. answer q = Done"
        by (simp add: firstRejection_None_iff)
      then show ?thesis using Cons.prems Failed None by auto
    next
      case (Some am)
      obtain a' m' where am: "am = (a', m')" by (cases am)
      have ih: "(\<exists>p\<in>set ps. answer p = Failed m' \<and> settlesAfter p = a')
                \<and> (\<forall>q\<in>set ps. answer q \<noteq> Done \<longrightarrow> a' \<le> settlesAfter q)"
        using Cons.IH Some am by simp
      show ?thesis
      proof (cases "settlesAfter p \<le> a'")
        case True
        then have "a = settlesAfter p" "m = mp"
          using Cons.prems Failed Some am by simp_all
        then show ?thesis using ih True Failed by fastforce
      next
        case False
        then have "a = a'" "m = m'"
          using Cons.prems Failed Some am by simp_all
        then show ?thesis using ih False Failed by fastforce
      qed
    qed
  qed
qed

lemma carried_promisesOf:
  "map vote (filter (\<lambda>p. answer p = Done) (promisesOf e t vs)) = okRows e t vs"
  by (induction vs arbitrary: t) (auto split: db_outcome.splits)

lemma all_carried:
  assumes "\<forall>t. onExecute e t = Done"
  shows "firstRejection (promisesOf e t vs) = None"
    and "landed (promisesOf e t vs) = vs"
    and "flying (promisesOf e t vs) = []"
proof -
  have d: "\<forall>p\<in>set (promisesOf e t vs). answer p = Done"
    using assms by (induction vs arbitrary: t) auto
  then show n: "firstRejection (promisesOf e t vs) = None"
    by (simp add: firstRejection_None_iff)
  have "filter (\<lambda>p. answer p = Done) (promisesOf e t vs) = promisesOf e t vs"
    using d by (simp add: filter_id_conv)
  moreover have "map vote (promisesOf e t vs) = vs"
    by (induction vs arbitrary: t) auto
  ultimately show "landed (promisesOf e t vs) = vs"
    by (simp add: landed_def settledWhen_def n)
  show "flying (promisesOf e t vs) = []"
    by (simp add: flying_def settledWhen_def n)
qed

lemma landed_flying_votesFor:
  "votesFor n (landed ps) + votesFor n (map snd (flying ps)) =
     votesFor n (map vote (filter (\<lambda>p. answer p = Done) ps))"
proof -
  have "\<And>S. votesFor n (map vote (filter (\<lambda>p. answer p = Done \<and> S p) ps))
           + votesFor n (map vote (filter (\<lambda>p. answer p = Done \<and> \<not> S p) ps))
         = votesFor n (map vote (filter (\<lambda>p. answer p = Done) ps))"
  proof -
    fix S :: "promise \<Rightarrow> bool"
    show "votesFor n (map vote (filter (\<lambda>p. answer p = Done \<and> S p) ps))
           + votesFor n (map vote (filter (\<lambda>p. answer p = Done \<and> \<not> S p) ps))
         = votesFor n (map vote (filter (\<lambda>p. answer p = Done) ps))"
      by (induction ps) (simp_all add: votesFor_Cons)
  qed
  then show ?thesis
    by (simp add: landed_def flying_def comp_def)
qed

lemma landed_flying_set:
  "set (landed ps) \<union> set (map snd (flying ps)) =
     set (map vote (filter (\<lambda>p. answer p = Done) ps))"
  by (auto simp: landed_def flying_def)

lemma set_landed: "set (landed (promisesOf e t vs)) \<subseteq> set vs"
  using landed_flying_set [of "promisesOf e t vs"] set_okRows [of e t vs]
  by (auto simp: carried_promisesOf)

lemma set_flying: "snd ` set (flying (promisesOf e t vs)) \<subseteq> set vs"
  using landed_flying_set [of "promisesOf e t vs"] set_okRows [of e t vs]
  by (auto simp: carried_promisesOf)

lemma save_result: "fst (saveVotesToDatabase e vs s) = Inr ()"
  by (simp add: saveVotesToDatabase_def case_prod_beta Let_def split: sum.splits)

lemma save_table:
  "table (snd (saveVotesToDatabase e vs s)) =
     applyRows (landed (promisesOf e (clock s) vs)) (table s)"
  by (simp add: saveVotesToDatabase_def case_prod_beta Let_def executeEach_promises
                executeEach_table split: sum.splits)

lemma save_inflight:
  "inflight (snd (saveVotesToDatabase e vs s)) =
     inflight s @ flying (promisesOf e (clock s) vs)"
  by (simp add: saveVotesToDatabase_def case_prod_beta Let_def executeEach_promises
                executeEach_inflight split: sum.splits)

lemma save_clock: "clock (snd (saveVotesToDatabase e vs s)) = clock s + length vs"
  by (simp add: saveVotesToDatabase_def case_prod_beta Let_def executeEach_clock
           split: sum.splits)

lemma save_trace:
  "trace (snd (saveVotesToDatabase e vs s)) =
     trace s @ map (\<lambda>v. InsertVote (nickname v) (votes v)) vs @
     [Console (case firstRejection (promisesOf e (clock s) vs) of
                 None \<Rightarrow> NewVotesSaved
               | Some (a, m) \<Rightarrow> ErrorSavingVotes m)]"
  by (simp add: saveVotesToDatabase_def case_prod_beta Let_def executeEach_promises
                executeEach_trace promise_all_def split: option.splits)

lemma save_all_carried:
  assumes "\<forall>t. onExecute e t = Done"
  shows "table (snd (saveVotesToDatabase e vs s)) = applyRows vs (table s)"
    and "inflight (snd (saveVotesToDatabase e vs s)) = inflight s"
  using all_carried [OF assms] by (simp_all add: save_table save_inflight)

lemma save_settled:
  "sameCounts (settled (snd (saveVotesToDatabase e vs s)))
              (applyRows (okRows e (clock s) vs) (settled s))"
proof -
  define ps where "ps = promisesOf e (clock s) vs"
  have l: "settled (snd (saveVotesToDatabase e vs s)) =
             applyRows (landed ps @ map snd (inflight s) @ map snd (flying ps)) (table s)"
    by (simp add: settled_def save_table save_inflight applyRows_append ps_def)
  have r: "applyRows (okRows e (clock s) vs) (settled s) =
             applyRows (map snd (inflight s) @ okRows e (clock s) vs) (table s)"
    by (simp add: settled_def applyRows_append)
  have ok: "okRows e (clock s) vs = map vote (filter (\<lambda>p. answer p = Done) ps)"
    by (simp add: ps_def carried_promisesOf)
  have v: "\<forall>n. votesFor n (landed ps @ map snd (inflight s) @ map snd (flying ps)) =
               votesFor n (map snd (inflight s) @ okRows e (clock s) vs)"
    using landed_flying_votesFor [of _ ps] by (simp add: votesFor_append ok)
  have st: "nickname ` set (landed ps @ map snd (inflight s) @ map snd (flying ps)) =
            nickname ` set (map snd (inflight s) @ okRows e (clock s) vs)"
    using landed_flying_set [of ps] unfolding ok
    by (simp only: set_append image_Un) blast
  show ?thesis
    unfolding l r by (rule sameCounts_applyRows [OF sameCounts_refl st v])
qed

subsection \<open>Reading the stored votes\<close>

lemma getStoredVotes_result:
  "fst (getStoredVotes e s) = Inr (snapshotAt e (clock s) (seenAt e (clock s) s))"
  by (simp add: getStoredVotes_def db_select_def arrive_def snapshotAt_def seenAt_def Let_def
           split: db_outcome.splits)

lemma getStoredVotes_table:
  "table (snd (getStoredVotes e s)) = readTable e (clock s) s"
  by (simp add: getStoredVotes_def db_select_def arrive_def readTable_def seenAt_def Let_def
           split: db_outcome.splits)

lemma getStoredVotes_inflight:
  "inflight (snd (getStoredVotes e s)) = readFlight e (clock s) s"
  by (simp add: getStoredVotes_def db_select_def arrive_def readFlight_def Let_def
           split: db_outcome.splits)

lemma getStoredVotes_clock: "clock (snd (getStoredVotes e s)) = Suc (clock s)"
  by (simp add: getStoredVotes_def db_select_def arrive_def Let_def split: db_outcome.splits)

lemma readTable_nothing_flying: "inflight s = [] \<Longrightarrow> readTable e t s = table s"
  by (simp add: readTable_def seenAt_def split: db_outcome.splits)

lemma readFlight_nothing_flying: "inflight s = [] \<Longrightarrow> readFlight e t s = []"
  by (simp add: readFlight_def split: db_outcome.splits)

lemma nicknames_readTable: "nicknames (table s) \<subseteq> nicknames (readTable e t s)"
  by (auto simp: readTable_def seenAt_def nicknames_applyRows split: db_outcome.splits)

lemma set_readFlight: "set (readFlight e t s) \<subseteq> set (inflight s)"
  by (auto simp: readFlight_def split: db_outcome.splits)

lemma selects_append [simp]: "selects (xs @ ys) = selects xs + selects ys"
  by (simp add: selects_def)

lemma saveCalls_append [simp]: "saveCalls (xs @ ys) = saveCalls xs + saveCalls ys"
  by (simp add: saveCalls_def)

lemma inserted_append [simp]: "inserted (xs @ ys) = inserted xs @ inserted ys"
  by (simp add: inserted_def)

lemma getStoredVotes_selects:
  "selects (trace (snd (getStoredVotes e s))) = Suc (selects (trace s))"
  by (simp add: getStoredVotes_def db_select_def arrive_def Let_def selects_def
           split: db_outcome.splits)

lemma getStoredVotes_saveCalls:
  "saveCalls (trace (snd (getStoredVotes e s))) = saveCalls (trace s)"
  by (simp add: getStoredVotes_def db_select_def arrive_def Let_def saveCalls_def isSaveEnd_def
           split: db_outcome.splits)

lemma getStoredVotes_inserted:
  "inserted (trace (snd (getStoredVotes e s))) = inserted (trace s)"
  by (simp add: getStoredVotes_def db_select_def arrive_def Let_def inserted_def
           split: db_outcome.splits)

lemma save_selects: "selects (trace (snd (saveVotesToDatabase e vs s))) = selects (trace s)"
  by (simp add: save_trace) (simp add: selects_def filter_empty_conv split: option.splits)

lemma save_saveCalls:
  "saveCalls (trace (snd (saveVotesToDatabase e vs s))) = Suc (saveCalls (trace s))"
  by (simp add: save_trace)
     (simp add: saveCalls_def isSaveEnd_def filter_empty_conv split: option.splits)

lemma inserted_InsertVotes:
  "inserted (map (\<lambda>v. InsertVote (nickname v) (votes v)) vs) = map asRow vs"
  by (induction vs) (simp_all add: inserted_def asRow_def)

lemma save_inserted:
  "inserted (trace (snd (saveVotesToDatabase e vs s))) = inserted (trace s) @ map asRow vs"
  by (simp add: save_trace inserted_InsertVotes) (simp add: inserted_def)

subsection \<open>One source\<close>

lemma fetch_not_array:
  assumes "\<forall>st voters. http e (clock s) u \<noteq> Response True st (VotersArray voters)"
  shows "fst (fetchVotesFromApi e u s) = Inr []"
    and "table (snd (fetchVotesFromApi e u s)) = table s"
    and "clock (snd (fetchVotesFromApi e u s)) = Suc (clock s)"
    and "selects (trace (snd (fetchVotesFromApi e u s))) = selects (trace s)"
    and "saveCalls (trace (snd (fetchVotesFromApi e u s))) = saveCalls (trace s)"
    and "inflight (snd (fetchVotesFromApi e u s)) = inflight s"
  using assms
  by (auto simp: fetchVotesFromApi_def fetchVotesFromApi_try_def http_get_def
                 selects_def saveCalls_def isSaveEnd_def
           split: http_outcome.splits json_body.splits)


lemma fetch_array:
  assumes "http e (clock s) u = Response True st (VotersArray voters)"
  shows "fst (fetchVotesFromApi e u s) =
           Inr (novel (snapshotAt e (Suc (clock s)) (seenAt e (Suc (clock s)) s)) voters)"
    and "table (snd (fetchVotesFromApi e u s)) =
           applyRows (landed (promisesOf e (Suc (Suc (clock s)))
                        (novel (snapshotAt e (Suc (clock s)) (seenAt e (Suc (clock s)) s)) voters)))
             (readTable e (Suc (clock s)) s)"
    and "inflight (snd (fetchVotesFromApi e u s)) =
           readFlight e (Suc (clock s)) s @
           flying (promisesOf e (Suc (Suc (clock s)))
                     (novel (snapshotAt e (Suc (clock s)) (seenAt e (Suc (clock s)) s)) voters))"
    and "clock (snd (fetchVotesFromApi e u s)) =
           Suc (Suc (clock s)) +
           length (novel (snapshotAt e (Suc (clock s)) (seenAt e (Suc (clock s)) s)) voters)"
  using assms
  by (simp_all add: fetchVotesFromApi_def fetchVotesFromApi_try_def http_get_def
        case_prod_beta Let_def novel_def
        getStoredVotes_result getStoredVotes_table getStoredVotes_inflight getStoredVotes_clock
        save_result save_table save_inflight save_clock landed_def flying_def)

lemma fetch_never_throws: "\<exists>r. fst (fetchVotesFromApi e u s) = Inr r"
proof (cases "\<exists>st voters. http e (clock s) u = Response True st (VotersArray voters)")
  case True
  then show ?thesis using fetch_array(1) by blast
next
  case False
  then show ?thesis using fetch_not_array(1) [of e s u] by simp
qed

lemma fetch_array_counts:
  assumes "http e (clock s) u = Response True st (VotersArray voters)"
  shows "selects (trace (snd (fetchVotesFromApi e u s))) = Suc (selects (trace s))"
    and "saveCalls (trace (snd (fetchVotesFromApi e u s))) =
           saveCalls (trace s) +
           (if novel (snapshotAt e (Suc (clock s)) (seenAt e (Suc (clock s)) s)) voters = []
            then 0 else 1)"
  using assms
  by (simp_all add: fetchVotesFromApi_def fetchVotesFromApi_try_def http_get_def
        case_prod_beta Let_def novel_def
        getStoredVotes_result getStoredVotes_selects getStoredVotes_saveCalls
        save_result save_selects save_saveCalls)
     (simp_all add: selects_def saveCalls_def isSaveEnd_def)

lemma fetch_inserted:
  "inserted (trace (snd (fetchVotesFromApi e u s))) =
     inserted (trace s) @ map asRow (projr (fst (fetchVotesFromApi e u s)))"
proof (cases "\<exists>st voters. http e (clock s) u = Response True st (VotersArray voters)")
  case True
  then obtain st voters where h: "http e (clock s) u = Response True st (VotersArray voters)"
    by blast
  show ?thesis
    using h
    by (simp add: fetchVotesFromApi_def fetchVotesFromApi_try_def http_get_def
          case_prod_beta Let_def getStoredVotes_result getStoredVotes_inserted
          save_result save_inserted)
       (simp add: inserted_def)
next
  case False
  then have "\<forall>st voters. http e (clock s) u \<noteq> Response True st (VotersArray voters)"
    by simp
  then show ?thesis
    by (auto simp: fetchVotesFromApi_def fetchVotesFromApi_try_def http_get_def inserted_def
             split: http_outcome.splits json_body.splits)
qed

lemma fetch_counts_le:
  "selects (trace (snd (fetchVotesFromApi e u s))) \<le> Suc (selects (trace s))"
  "saveCalls (trace (snd (fetchVotesFromApi e u s))) \<le> Suc (saveCalls (trace s))"
proof -
  show "selects (trace (snd (fetchVotesFromApi e u s))) \<le> Suc (selects (trace s))"
  proof (cases "\<exists>st voters. http e (clock s) u = Response True st (VotersArray voters)")
    case True
    then show ?thesis using fetch_array_counts(1) by auto
  next
    case False
    then show ?thesis using fetch_not_array(4) [of e s u] by simp
  qed
  show "saveCalls (trace (snd (fetchVotesFromApi e u s))) \<le> Suc (saveCalls (trace s))"
  proof (cases "\<exists>st voters. http e (clock s) u = Response True st (VotersArray voters)")
    case True
    then show ?thesis using fetch_array_counts(2) by auto
  next
    case False
    then show ?thesis using fetch_not_array(5) [of e s u] by simp
  qed
qed

lemma fetch_nicknames_grow:
  "nicknames (table s) \<subseteq> nicknames (table (snd (fetchVotesFromApi e u s)))"
proof (cases "\<exists>st voters. http e (clock s) u = Response True st (VotersArray voters)")
  case True
  then show ?thesis
    using nicknames_readTable [of s e "Suc (clock s)"]
    by (auto simp: fetch_array(2) nicknames_applyRows)
next
  case False
  then show ?thesis using fetch_not_array(2) [of e s u] by simp
qed

subsection \<open>The loop over the sources\<close>

lemma pollEach_Cons:
  "pollEach e (u # us) acc s =
     pollEach e us
       (acc @ projr (fst (fetchVotesFromApi e u (emit (Console (PollingApi u)) s))))
       (snd (fetchVotesFromApi e u (emit (Console (PollingApi u)) s)))"
  using fetch_never_throws [of e u "emit (Console (PollingApi u)) s"]
  by (auto split: prod.splits sum.splits)




lemma pollVotes_result: "fst (pollVotes e us s) = Inr (fst (pollEach e us [] s))"
  by (simp add: pollVotes_def case_prod_beta)

lemma pollVotes_table: "table (snd (pollVotes e us s)) = table (snd (pollEach e us [] s))"
  by (simp add: pollVotes_def case_prod_beta)

lemma pollVotes_inflight:
  "inflight (snd (pollVotes e us s)) = inflight (snd (pollEach e us [] s))"
  by (simp add: pollVotes_def case_prod_beta)

section \<open>Accumulation\<close>

lemma landed_single:
  "onExecute e t = Done \<Longrightarrow> landed (promisesOf e t [v]) = [v]"
  by (simp add: landed_def settledWhen_def)

text \<open>
  C3. Saving a nickname with count \<open>a\<close> and then saving it again with count \<open>b\<close>, both
  statements being carried out by the database, adds \<open>a + b\<close> to what was stored for that
  nickname; for a nickname that was absent the stored count is \<open>a + b\<close>
  (neither the larger of the two nor the later one).
\<close>

theorem accumulation_law:
  assumes "onExecute e (clock s) = Done" and "onExecute e (Suc (clock s)) = Done"
  shows "(let s1 = snd (saveVotesToDatabase e [\<lparr>nickname = n, votes = a\<rparr>] s);
              s2 = snd (saveVotesToDatabase e [\<lparr>nickname = n, votes = b\<rparr>] s1)
          in voteCount (table s2) n =
               Some ((case voteCount (table s) n of None \<Rightarrow> 0 | Some c \<Rightarrow> c) + a + b)
             \<and> (voteCount (table s) n = None \<longrightarrow> voteCount (table s2) n = Some (a + b)))"
proof -
  define s1 where "s1 = snd (saveVotesToDatabase e [\<lparr>nickname = n, votes = a\<rparr>] s)"
  define s2 where "s2 = snd (saveVotesToDatabase e [\<lparr>nickname = n, votes = b\<rparr>] s1)"
  have c1: "clock s1 = Suc (clock s)"
    by (simp add: s1_def save_clock)
  have t1: "table s1 = upsert n a (table s)"
    unfolding s1_def save_table landed_single [OF assms(1)] by simp
  have t2: "table s2 = upsert n b (table s1)"
    unfolding s2_def save_table c1 landed_single [OF assms(2)] by simp
  have "voteCount (table s2) n =
           Some ((case voteCount (table s) n of None \<Rightarrow> 0 | Some c \<Rightarrow> c) + a + b)"
    by (simp add: t1 t2 voteCount_upsert)
  then show ?thesis
    by (simp add: s1_def s2_def Let_def)
qed

theorem accumulation_law_witness:
  "onExecute quietEnv (clock emptyWorld) = Done
   \<and> onExecute quietEnv (Suc (clock emptyWorld)) = Done
   \<and> voteCount (table emptyWorld) ''x'' = None
   \<and> voteCount (table (snd (saveVotesToDatabase quietEnv [\<lparr>nickname = ''x'', votes = 2\<rparr>]
        (snd (saveVotesToDatabase quietEnv [\<lparr>nickname = ''x'', votes = 3\<rparr>] emptyWorld))))) ''x''
     = Some 5"
proof -
  have h1: "onExecute quietEnv (clock emptyWorld) = Done" by (simp add: quietEnv_def)
  have h2: "onExecute quietEnv (Suc (clock emptyWorld)) = Done" by (simp add: quietEnv_def)
  have h3: "voteCount (table emptyWorld) ''x'' = None"
    by (simp add: emptyWorld_def voteCount_def)
  show ?thesis
    using accumulation_law [OF h1 h2, of "''x''" 3 2] h1 h2 h3
    by (simp add: Let_def)
qed

section \<open>Bounded retry of the schema creation\<close>

lemma initLoop_retry:
  assumes "Suc retries < maxRetries" and "onCreate e (clock s) = Failed msg"
  shows "initLoop e retries s =
           initLoop e (Suc retries)
             (emit (Delay 5000) (emit (Console Retrying) (emit (Console StackTrace)
                (emit (Console (ErrorInitializing (Suc retries) msg))
                   (tick (emit CreateTable s))))))"
  using assms by (subst initLoop.simps) (simp add: db_create_def Let_def)

lemma initLoop_give_up:
  assumes "Suc retries = maxRetries" and "onCreate e (clock s) = Failed msg"
  shows "initLoop e retries s =
           (Inr (), emit (Console MaxRetriesReached) (emit (Console StackTrace)
                      (emit (Console (ErrorInitializing (Suc retries) msg))
                         (tick (emit CreateTable s)))))"
proof -
  have stop: "\<And>w. initLoop e maxRetries w = (Inr (), w)"
    by (subst initLoop.simps) simp
  show ?thesis
    using assms by (subst initLoop.simps) (simp add: db_create_def Let_def stop)
qed

lemma initLoop_returns: "fst (initLoop e retries s) = Inr ()"
proof (induction e retries s rule: initLoop.induct)
  case (1 e retries s)
  show ?case
  proof (cases "retries < maxRetries")
    case False
    then show ?thesis by (subst initLoop.simps) simp
  next
    case True
    show ?thesis
    proof (cases "db_create e s")
      case (Pair r s1)
      show ?thesis
      proof (cases r)
        case (Inr x)
        with True Pair show ?thesis by (subst initLoop.simps) simp
      next
        case (Inl msg)
        with True Pair "1.IH" [of "Inl msg" s1 msg] show ?thesis
          by (subst initLoop.simps) (simp add: Let_def)
      qed
    qed
  qed
qed

text \<open>
  C4. When the schema creation fails on every attempt, \<^verbatim>\<open>initializeDatabase\<close> issues the
  statement exactly five times, waits 5000 ms after each of the first four failures and
  before the next attempt, does not wait after the fifth, and returns normally; the
  table is left as it was. The trace lists everything it did, in order.
\<close>

theorem retry_bound:
  assumes "\<forall>i<5. onCreate e (clock s + i) = Failed (m i)"
  shows "fst (initializeDatabase e s) = Inr ()
       \<and> table (snd (initializeDatabase e s)) = table s
       \<and> clock (snd (initializeDatabase e s)) = clock s + 5
       \<and> trace (snd (initializeDatabase e s)) = trace s @
           [CreateTable, Console (ErrorInitializing 1 (m 0)), Console StackTrace,
              Console Retrying, Delay 5000,
            CreateTable, Console (ErrorInitializing 2 (m 1)), Console StackTrace,
              Console Retrying, Delay 5000,
            CreateTable, Console (ErrorInitializing 3 (m 2)), Console StackTrace,
              Console Retrying, Delay 5000,
            CreateTable, Console (ErrorInitializing 4 (m 3)), Console StackTrace,
              Console Retrying, Delay 5000,
            CreateTable, Console (ErrorInitializing 5 (m 4)), Console StackTrace,
              Console MaxRetriesReached]"
proof -
  have f0: "onCreate e (clock s) = Failed (m 0)"
    using assms by (metis add.right_neutral zero_less_numeral)
  have f1: "onCreate e (Suc (clock s)) = Failed (m 1)"
    using assms [rule_format, of 1] by (simp add: eval_nat_numeral)
  have f2: "onCreate e (Suc (Suc (clock s))) = Failed (m 2)"
    using assms [rule_format, of 2] by (simp add: eval_nat_numeral)
  have f3: "onCreate e (Suc (Suc (Suc (clock s)))) = Failed (m 3)"
    using assms [rule_format, of 3] by (simp add: eval_nat_numeral)
  have f4: "onCreate e (Suc (Suc (Suc (Suc (clock s))))) = Failed (m 4)"
    using assms [rule_format, of 4] by (simp add: eval_nat_numeral)
  show ?thesis
    unfolding initializeDatabase_def
    by (simp add: initLoop_retry initLoop_give_up maxRetries_def f0 f1 f2 f3 f4)
qed

theorem retry_bound_witness:
  "onCreate brokenEnv (clock emptyWorld + 0) = Failed ''ECONNREFUSED''
   \<and> onCreate brokenEnv (clock emptyWorld + 1) = Failed ''ECONNREFUSED''
   \<and> onCreate brokenEnv (clock emptyWorld + 2) = Failed ''ECONNREFUSED''
   \<and> onCreate brokenEnv (clock emptyWorld + 3) = Failed ''ECONNREFUSED''
   \<and> onCreate brokenEnv (clock emptyWorld + 4) = Failed ''ECONNREFUSED''
   \<and> fst (initializeDatabase brokenEnv emptyWorld) = Inr ()
   \<and> clock (snd (initializeDatabase brokenEnv emptyWorld)) = 5
   \<and> length (filter (\<lambda>ev. ev = CreateTable)
        (trace (snd (initializeDatabase brokenEnv emptyWorld)))) = 5
   \<and> filter (\<lambda>ev. ev = CreateTable \<or> ev = Delay 5000)
        (trace (snd (initializeDatabase brokenEnv emptyWorld))) =
       [CreateTable, Delay 5000, CreateTable, Delay 5000, CreateTable, Delay 5000,
        CreateTable, Delay 5000, CreateTable]"
proof -
  have h: "\<forall>i<5. onCreate brokenEnv (clock emptyWorld + i) = Failed ((\<lambda>i. ''ECONNREFUSED'') i)"
    by (simp add: brokenEnv_def)
  show ?thesis
    using retry_bound [OF h] by (simp add: emptyWorld_def brokenEnv_def)
qed

section \<open>Failures of a source\<close>



section \<open>Deduplication\<close>

lemma novel_nicknames: "r \<in> set (novel snap voters) \<Longrightarrow> nickname r \<notin> nicknames snap"
  by (simp add: novel_def nicknames_def)

lemma snapshotAt_Done: "onSelect e t = Done \<Longrightarrow> snapshotAt e t rs = rs"
  by (simp add: snapshotAt_def)

lemma snapshotAt_Failed: "onSelect e t = Failed m \<Longrightarrow> snapshotAt e t rs = []"
  by (simp add: snapshotAt_def)

lemma novel_Nil: "novel [] voters = voters"
  by (simp add: novel_def)

lemma novel_alt: "novel snap voters = filter (\<lambda>v. nickname v \<notin> nicknames snap) voters"
  by (simp add: novel_def nicknames_def)

lemma fetch_result_novel:
  assumes "onSelect e (Suc (clock s)) = Done"
    and "r \<in> set (projr (fst (fetchVotesFromApi e u s)))"
  shows "nickname r \<notin> nicknames (table s)"
proof (cases "\<exists>st voters. http e (clock s) u = Response True st (VotersArray voters)")
  case True
  then obtain st voters where "http e (clock s) u = Response True st (VotersArray voters)"
    by blast
  then have "fst (fetchVotesFromApi e u s) = Inr (novel (seenAt e (Suc (clock s)) s) voters)"
    using fetch_array(1) assms(1) by (simp add: snapshotAt_Done)
  then have "nickname r \<notin> nicknames (seenAt e (Suc (clock s)) s)"
    using assms(2) novel_nicknames by simp
  then show ?thesis
    by (simp add: seenAt_def nicknames_applyRows)
next
  case False
  then show ?thesis
    using fetch_not_array(1) [of e s u] assms(2) by simp
qed

lemma pollEach_novel:
  assumes "\<forall>t. onSelect e t = Done"
    and "\<forall>r\<in>set acc. nickname r \<notin> K"
    and "K \<subseteq> nicknames (table s)"
  shows "\<forall>r\<in>set (fst (pollEach e us acc s)). nickname r \<notin> K"
  using assms(2,3)
proof (induction us arbitrary: acc s)
  case Nil
  then show ?case by simp
next
  case (Cons u us)
  define sp where "sp = emit (Console (PollingApi u)) s"
  have new: "\<forall>r\<in>set (projr (fst (fetchVotesFromApi e u sp))). nickname r \<notin> K"
    using fetch_result_novel [of e sp _ u] assms(1) Cons.prems(2)
    by (auto simp: sp_def)
  have grow: "K \<subseteq> nicknames (table (snd (fetchVotesFromApi e u sp)))"
    using fetch_nicknames_grow [of sp e u] Cons.prems(2) by (auto simp: sp_def)
  have "\<forall>r\<in>set (acc @ projr (fst (fetchVotesFromApi e u sp))). nickname r \<notin> K"
    using Cons.prems(1) new by auto
  then show ?case
    unfolding pollEach_Cons sp_def [symmetric]
    using Cons.IH grow by blast
qed

text \<open>
  C5, as the code has it. When every read of the stored votes made during the cycle
  succeeds, the nickname of every record the cycle returns is absent from the store as
  it was when the cycle started. (A read that fails hands back an empty snapshot, and
  then the statement does not hold: see the counterexample.)
\<close>

theorem dedup_correctness:
  assumes "\<forall>t. onSelect e t = Done"
  shows "\<forall>r\<in>set (projr (fst (pollVotes e urls s))). nickname r \<notin> nicknames (table s)"
  using pollEach_novel [OF assms, of "[]" "nicknames (table s)" s urls]
  by (simp add: pollVotes_result)

theorem dedup_correctness_witness:
  "(\<forall>t. onSelect exampleEnv t = Done)
   \<and> projr (fst (pollVotes exampleEnv [''A''] storedWorld)) = []
   \<and> nicknames (table storedWorld) = {''x''}
   \<and> projr (fst (pollVotes exampleEnv [''B''] storedWorld)) = [\<lparr>nickname = ''y'', votes = 1\<rparr>]
   \<and> nickname \<lparr>nickname = ''y'', votes = 1\<rparr> \<notin> nicknames (table storedWorld)"
proof -
  have h: "\<forall>t. onSelect exampleEnv t = Done"
    by (simp add: exampleEnv_def)
  have b: "projr (fst (pollVotes exampleEnv [''B''] storedWorld)) = [\<lparr>nickname = ''y'', votes = 1\<rparr>]"
    by (simp add: run_defs exampleEnv_def storedWorld_def)
  have a: "projr (fst (pollVotes exampleEnv [''A''] storedWorld)) = []"
    by (simp add: run_defs exampleEnv_def storedWorld_def)
  have n: "nicknames (table storedWorld) = {''x''}"
    by (simp add: nicknames_def storedWorld_def)
  show ?thesis
    using dedup_correctness [OF h, of "[''B'']" storedWorld] h a n
    unfolding b by simp
qed

text \<open>
  C5 as stated fails. The store holds \<open>x\<close>; both sources report \<open>x\<close>. The first source's read
  succeeds (its snapshot holds \<open>x\<close>, and its record is dropped); the second source's read
  fails, its snapshot is empty, and the cycle returns the record of \<open>x\<close>.
\<close>

theorem dedup_correctness_counterexample:
  "\<not> (\<forall>r\<in>set (projr (fst (pollVotes flakyReadEnv [''A'', ''B''] storedWorld))).
         nickname r \<notin> nicknames (table storedWorld))
   \<and> fst (pollVotes flakyReadEnv [''A'', ''B''] storedWorld) = Inr [\<lparr>nickname = ''x'', votes = 2\<rparr>]
   \<and> nicknames (snapshotAt flakyReadEnv 1 (table storedWorld)) = {''x''}
   \<and> nicknames (table storedWorld) = {''x''}"
proof -
  have r: "fst (pollVotes flakyReadEnv [''A'', ''B''] storedWorld) =
             Inr [\<lparr>nickname = ''x'', votes = 2\<rparr>]"
    by (simp add: run_defs flakyReadEnv_def storedWorld_def)
  have n: "nicknames (table storedWorld) = {''x''}"
    by (simp add: nicknames_def storedWorld_def)
  have sn: "nicknames (snapshotAt flakyReadEnv 1 (table storedWorld)) = {''x''}"
    by (simp add: snapshotAt_def flakyReadEnv_def n)
  show ?thesis
    unfolding r n sn by simp
qed

lemma fetch_all_Done:
  assumes "\<forall>t. onSelect e t = Done" and "\<forall>t. onExecute e t = Done"
    and "inflight s = []"
    and "http e (clock s) u = Response True st (VotersArray voters)"
  shows "fst (fetchVotesFromApi e u s) = Inr (novel (table s) voters)"
    and "table (snd (fetchVotesFromApi e u s)) = applyRows (novel (table s) voters) (table s)"
    and "inflight (snd (fetchVotesFromApi e u s)) = []"
proof -
  have seen: "seenAt e (Suc (clock s)) s = table s"
    using assms(3) by (simp add: seenAt_def)
  show "fst (fetchVotesFromApi e u s) = Inr (novel (table s) voters)"
    using fetch_array(1) [OF assms(4)] assms(1) by (simp add: snapshotAt_Done seen)
  show "table (snd (fetchVotesFromApi e u s)) = applyRows (novel (table s) voters) (table s)"
    using fetch_array(2) [OF assms(4)] assms(1) all_carried(2) [OF assms(2)]
    by (simp add: snapshotAt_Done seen readTable_nothing_flying [OF assms(3)])
  show "inflight (snd (fetchVotesFromApi e u s)) = []"
    using fetch_array(3) [OF assms(4)] all_carried(3) [OF assms(2)]
    by (simp add: readFlight_nothing_flying [OF assms(3)])
qed

text \<open>
  C2, as the code has it. With no statement in flight when the cycle starts, and reads
  and writes succeeding, the records that the first source contributes are saved before
  the second source is filtered. So the second source is filtered against the store as it
  was before the cycle together with the nicknames the first source contributed: a record
  of the second source whose nickname the first source already contributed is dropped, and
  is not added to the stored count. The cycle returns the two contributions one after
  the other, and the table is the one those records leave behind.
\<close>

theorem cross_source_dedup:
  assumes "\<forall>t. onSelect e t = Done" and "\<forall>t. onExecute e t = Done"
    and "\<forall>t. http e t a = Response True sa (VotersArray va)"
    and "\<forall>t. http e t b = Response True sb (VotersArray vb)"
    and "inflight s = []"
  shows "(let fromA = novel (table s) va;
              fromB = filter (\<lambda>v. nickname v \<notin> nicknames (table s) \<union> nickname ` set fromA) vb
          in fst (pollVotes e [a, b] s) = Inr (fromA @ fromB)
             \<and> table (snd (pollVotes e [a, b] s)) = applyRows (fromA @ fromB) (table s))"
proof -
  define sa0 where "sa0 = emit (Console (PollingApi a)) s"
  define s1 where "s1 = snd (fetchVotesFromApi e a sa0)"
  define sb0 where "sb0 = emit (Console (PollingApi b)) s1"
  define fromA where "fromA = novel (table s) va"
  define fromB where "fromB = novel (table s1) vb"
  have ha: "http e (clock sa0) a = Response True sa (VotersArray va)"
    using assms(3) by simp
  have hb: "http e (clock sb0) b = Response True sb (VotersArray vb)"
    using assms(4) by simp
  have fa: "inflight sa0 = []"
    using assms(5) by (simp add: sa0_def)
  have ra: "fst (fetchVotesFromApi e a sa0) = Inr fromA"
    using fetch_all_Done(1) [OF assms(1,2) fa ha] by (simp add: sa0_def fromA_def)
  have ta: "table s1 = applyRows fromA (table s)"
    using fetch_all_Done(2) [OF assms(1,2) fa ha] by (simp add: sa0_def fromA_def s1_def)
  have fb0: "inflight sb0 = []"
    using fetch_all_Done(3) [OF assms(1,2) fa ha] by (simp add: sb0_def s1_def)
  have rb: "fst (fetchVotesFromApi e b sb0) = Inr fromB"
    using fetch_all_Done(1) [OF assms(1,2) fb0 hb] by (simp add: sb0_def fromB_def)
  have tb: "table (snd (fetchVotesFromApi e b sb0)) = applyRows fromB (table s1)"
    using fetch_all_Done(2) [OF assms(1,2) fb0 hb] by (simp add: sb0_def fromB_def)
  have fb: "fromB = filter (\<lambda>v. nickname v \<notin> nicknames (table s) \<union> nickname ` set fromA) vb"
    by (simp add: fromB_def ta novel_alt nicknames_applyRows)
  have res: "pollEach e [a, b] [] s = (fromA @ fromB, snd (fetchVotesFromApi e b sb0))"
    by (simp add: pollEach_Cons ra rb sa0_def [symmetric] s1_def [symmetric] sb0_def [symmetric]
             del: pollEach.simps(2))
  show ?thesis
    using fb
    by (simp add: Let_def pollVotes_result pollVotes_table res tb ta applyRows_append
                  fromA_def [symmetric]
             del: pollEach.simps(2))
qed

theorem cross_source_dedup_witness:
  "(\<forall>t. onSelect exampleEnv t = Done) \<and> (\<forall>t. onExecute exampleEnv t = Done)
   \<and> (\<forall>t. http exampleEnv t ''A'' =
          Response True ''OK'' (VotersArray [\<lparr>nickname = ''x'', votes = 3\<rparr>]))
   \<and> (\<forall>t. http exampleEnv t ''B'' =
          Response True ''OK''
            (VotersArray [\<lparr>nickname = ''x'', votes = 2\<rparr>, \<lparr>nickname = ''y'', votes = 1\<rparr>]))
   \<and> inflight emptyWorld = []
   \<and> fst (pollVotes exampleEnv [''A'', ''B''] emptyWorld) =
       Inr [\<lparr>nickname = ''x'', votes = 3\<rparr>, \<lparr>nickname = ''y'', votes = 1\<rparr>]
   \<and> table (snd (pollVotes exampleEnv [''A'', ''B''] emptyWorld)) = [(''x'', 3), (''y'', 1)]"
proof -
  have h1: "\<forall>t. onSelect exampleEnv t = Done" by (simp add: exampleEnv_def)
  have h2: "\<forall>t. onExecute exampleEnv t = Done" by (simp add: exampleEnv_def)
  have h3: "\<forall>t. http exampleEnv t ''A'' =
              Response True ''OK'' (VotersArray [\<lparr>nickname = ''x'', votes = 3\<rparr>])"
    by (simp add: exampleEnv_def)
  have h4: "\<forall>t. http exampleEnv t ''B'' =
              Response True ''OK''
                (VotersArray [\<lparr>nickname = ''x'', votes = 2\<rparr>, \<lparr>nickname = ''y'', votes = 1\<rparr>])"
    by (simp add: exampleEnv_def)
  have h5: "inflight emptyWorld = []" by (simp add: emptyWorld_def)
  show ?thesis
    using cross_source_dedup [OF h1 h2 h3 h4 h5] h1 h2 h3 h4 h5
    by (simp add: Let_def novel_def nicknames_def emptyWorld_def)
qed

text \<open>
  C2 as stated fails on its own example: with an empty store, \<open>A\<close> answering \<open>[{x, 3}]\<close> and
  \<open>B\<close> answering \<open>[{x, 2}, {y, 1}]\<close>, the record \<open>{x, 2}\<close> of \<open>B\<close> is not returned, and the
  stored count of \<open>x\<close> after the cycle is 3, not 5.
\<close>

theorem cross_source_dedup_counterexample:
  "fst (pollVotes exampleEnv [''A'', ''B''] emptyWorld) =
     Inr [\<lparr>nickname = ''x'', votes = 3\<rparr>, \<lparr>nickname = ''y'', votes = 1\<rparr>]
   \<and> \<lparr>nickname = ''x'', votes = 2\<rparr> \<notin> set (projr (fst (pollVotes exampleEnv [''A'', ''B''] emptyWorld)))
   \<and> voteCount (table (snd (pollVotes exampleEnv [''A'', ''B''] emptyWorld))) ''x'' = Some 3
   \<and> voteCount (table (snd (pollVotes exampleEnv [''A'', ''B''] emptyWorld))) ''x'' \<noteq> Some 5"
  by (simp add: run_defs exampleEnv_def emptyWorld_def voteCount_def)

section \<open>The table once the statements in flight have landed\<close>

lemma votesFor_split:
  "votesFor n (map f (filter P xs)) + votesFor n (map f (filter (\<lambda>x. \<not> P x) xs)) =
     votesFor n (map f xs)"
  by (induction xs) (simp_all add: votesFor_Cons)

lemma sameCounts_cong: "sameCounts a b \<Longrightarrow> sameCounts (applyRows xs a) (applyRows xs b)"
  by (rule sameCounts_applyRows) simp_all

lemma read_settled:
  "sameCounts (applyRows (map snd (readFlight e t s)) (readTable e t s)) (settled s)"
proof (cases "onSelect e t")
  case (Failed m)
  then show ?thesis
    by (simp add: readFlight_def readTable_def settled_def sameCounts_refl)
next
  case Done
  define L where "L = (\<lambda>p :: nat \<times> VoterRecord. case p of (i, v) \<Rightarrow> landedBy e i t)"
  have nl: "(\<lambda>p :: nat \<times> VoterRecord. case p of (i, v) \<Rightarrow> \<not> landedBy e i t) = (\<lambda>p. \<not> L p)"
    by (auto simp: L_def)
  have l: "applyRows (map snd (readFlight e t s)) (readTable e t s) =
             applyRows (map snd (filter L (inflight s)) @ map snd (filter (\<lambda>p. \<not> L p) (inflight s)))
               (table s)"
    using Done
    by (simp add: readFlight_def readTable_def seenAt_def applyRows_append L_def [symmetric] nl)
  have v: "\<forall>n. votesFor n (map snd (filter L (inflight s)) @ map snd (filter (\<lambda>p. \<not> L p) (inflight s)))
                = votesFor n (map snd (inflight s))"
    by (simp add: votesFor_append votesFor_split)
  have st: "nickname ` set (map snd (filter L (inflight s)) @ map snd (filter (\<lambda>p. \<not> L p) (inflight s)))
              = nickname ` set (map snd (inflight s))"
    by auto
  show ?thesis
    unfolding l settled_def by (rule sameCounts_applyRows [OF sameCounts_refl st v])
qed

lemma batch_settled:
  assumes "table s' = applyRows (landed (promisesOf e t vs)) T"
    and "inflight s' = I @ flying (promisesOf e t vs)"
  shows "sameCounts (settled s') (applyRows (okRows e t vs) (applyRows (map snd I) T))"
proof -
  define ps where "ps = promisesOf e t vs"
  have l: "settled s' = applyRows (landed ps @ map snd I @ map snd (flying ps)) T"
    by (simp add: settled_def assms applyRows_append ps_def)
  have r: "applyRows (okRows e t vs) (applyRows (map snd I) T) =
             applyRows (map snd I @ okRows e t vs) T"
    by (simp add: applyRows_append)
  have ok: "okRows e t vs = map vote (filter (\<lambda>p. answer p = Done) ps)"
    by (simp add: ps_def carried_promisesOf)
  have v: "\<forall>n. votesFor n (landed ps @ map snd I @ map snd (flying ps)) =
               votesFor n (map snd I @ okRows e t vs)"
    using landed_flying_votesFor [of _ ps] by (simp add: votesFor_append ok)
  have st: "nickname ` set (landed ps @ map snd I @ map snd (flying ps)) =
            nickname ` set (map snd I @ okRows e t vs)"
    using landed_flying_set [of ps] unfolding ok
    by (simp only: set_append image_Un) blast
  show ?thesis
    unfolding l r by (rule sameCounts_applyRows [OF sameCounts_refl st v])
qed

lemma fetch_settled:
  assumes "http e (clock s) u = Response True st (VotersArray voters)"
  shows "sameCounts (settled (snd (fetchVotesFromApi e u s)))
           (applyRows (okRows e (Suc (Suc (clock s)))
                        (novel (snapshotAt e (Suc (clock s)) (seenAt e (Suc (clock s)) s)) voters))
              (settled s))"
proof -
  define nv where "nv = novel (snapshotAt e (Suc (clock s)) (seenAt e (Suc (clock s)) s)) voters"
  have a: "sameCounts (settled (snd (fetchVotesFromApi e u s)))
             (applyRows (okRows e (Suc (Suc (clock s))) nv)
                (applyRows (map snd (readFlight e (Suc (clock s)) s))
                   (readTable e (Suc (clock s)) s)))"
    using batch_settled [OF fetch_array(2) [OF assms] fetch_array(3) [OF assms]]
    by (simp add: nv_def)
  have b: "sameCounts
             (applyRows (okRows e (Suc (Suc (clock s))) nv)
                (applyRows (map snd (readFlight e (Suc (clock s)) s))
                   (readTable e (Suc (clock s)) s)))
             (applyRows (okRows e (Suc (Suc (clock s))) nv) (settled s))"
    by (rule sameCounts_cong [OF read_settled])
  show ?thesis
    using sameCounts_trans [OF a b] by (simp add: nv_def)
qed


lemma pollVotes_settled: "settled (snd (pollVotes e us s)) = settled (snd (pollEach e us [] s))"
  by (simp add: pollVotes_def case_prod_beta)

lemma none_rejected:
  assumes "rowFailures e t vs = []"
  shows "landed (promisesOf e t vs) = vs"
    and "flying (promisesOf e t vs) = []"
    and "okRows e t vs = vs"
proof -
  have n: "firstRejection (promisesOf e t vs) = None"
    using assms by (simp add: firstRejection_rowFailures)
  then have d: "\<forall>p\<in>set (promisesOf e t vs). answer p = Done"
    by (simp add: firstRejection_None_iff)
  then have "filter (\<lambda>p. answer p = Done) (promisesOf e t vs) = promisesOf e t vs"
    by (simp add: filter_id_conv)
  moreover have "map vote (promisesOf e t vs) = vs"
    by (induction vs arbitrary: t) auto
  ultimately show "landed (promisesOf e t vs) = vs"
    by (simp add: landed_def settledWhen_def n)
  show "flying (promisesOf e t vs) = []"
    by (simp add: flying_def settledWhen_def n)
  show "okRows e t vs = vs"
    using assms by (induction vs arbitrary: t) (auto split: db_outcome.splits)
qed

section \<open>A read of the stored votes that fails\<close>

text \<open>
  C10. When the source answers with a voters array and the read of the stored votes made
  for it fails, the snapshot is empty and every fetched record is returned as new,
  whether or not its nickname is in the store; the records are then upserted: once the
  statements have landed, the table stores for every nickname what the carried-out
  statements leave behind, each adding to the count already stored for its nickname, and
  when no statement of the batch is rejected that is the table at the moment the call
  returns. The cycle over that one source returns and stores the same.
\<close>

theorem failed_read_all_novel:
  assumes "http e (clock s) u = Response True st (VotersArray voters)"
    and "onSelect e (Suc (clock s)) = Failed m"
  shows "fst (fetchVotesFromApi e u s) = Inr voters
       \<and> sameCounts (settled (snd (fetchVotesFromApi e u s)))
            (applyRows (okRows e (Suc (Suc (clock s))) voters) (settled s))
       \<and> (rowFailures e (Suc (Suc (clock s))) voters = [] \<longrightarrow>
            table (snd (fetchVotesFromApi e u s)) = applyRows voters (table s))
       \<and> fst (pollVotes e [u] s) = Inr voters
       \<and> sameCounts (settled (snd (pollVotes e [u] s)))
            (applyRows (okRows e (Suc (Suc (clock s))) voters) (settled s))
       \<and> (rowFailures e (Suc (Suc (clock s))) voters = [] \<longrightarrow>
            table (snd (pollVotes e [u] s)) = applyRows voters (table s))"
proof -
  have step: "fst (fetchVotesFromApi e u w) = Inr voters
       \<and> sameCounts (settled (snd (fetchVotesFromApi e u w)))
            (applyRows (okRows e (Suc (Suc (clock s))) voters) (settled s))
       \<and> (rowFailures e (Suc (Suc (clock s))) voters = [] \<longrightarrow>
            table (snd (fetchVotesFromApi e u w)) = applyRows voters (table s))"
    if w: "clock w = clock s" "table w = table s" "inflight w = inflight s" for w
  proof -
    have hw: "http e (clock w) u = Response True st (VotersArray voters)"
      using assms(1) w(1) by simp
    have snap: "snapshotAt e (Suc (clock w)) (seenAt e (Suc (clock w)) w) = []"
      using assms(2) w(1) by (simp add: snapshotAt_Failed)
    have rt: "readTable e (Suc (clock w)) w = table s"
      using assms(2) w by (simp add: readTable_def)
    have sw: "settled w = settled s"
      using w by (simp add: settled_def)
    have r: "fst (fetchVotesFromApi e u w) = Inr voters"
      using fetch_array(1) [OF hw, unfolded snap novel_Nil] .
    have c: "sameCounts (settled (snd (fetchVotesFromApi e u w)))
               (applyRows (okRows e (Suc (Suc (clock s))) voters) (settled s))"
      using fetch_settled [OF hw, unfolded snap novel_Nil] by (simp add: sw w(1))
    have tb: "table (snd (fetchVotesFromApi e u w)) = applyRows voters (table s)"
      if "rowFailures e (Suc (Suc (clock s))) voters = []"
      using fetch_array(2) [OF hw, unfolded snap novel_Nil rt] none_rejected(1) [OF that]
      by (simp add: w(1))
    show ?thesis
      using r c tb by simp
  qed
  define sp where "sp = emit (Console (PollingApi u)) s"
  have "pollEach e [u] [] s = (projr (fst (fetchVotesFromApi e u sp)), snd (fetchVotesFromApi e u sp))"
    by (simp add: pollEach_Cons sp_def [symmetric] del: pollEach.simps(2))
  then show ?thesis
    using step [of s] step [of sp]
    by (simp add: pollVotes_result pollVotes_table pollVotes_settled sp_def
             del: pollEach.simps(2))
qed

theorem failed_read_all_novel_witness:
  "http blindEnv (clock storedWorld) ''A'' =
     Response True ''OK'' (VotersArray [\<lparr>nickname = ''x'', votes = 2\<rparr>])
   \<and> onSelect blindEnv (Suc (clock storedWorld)) = Failed ''read timeout''
   \<and> rowFailures blindEnv (Suc (Suc (clock storedWorld))) [\<lparr>nickname = ''x'', votes = 2\<rparr>] = []
   \<and> voteCount (table storedWorld) ''x'' = Some 3
   \<and> fst (pollVotes blindEnv [''A''] storedWorld) = Inr [\<lparr>nickname = ''x'', votes = 2\<rparr>]
   \<and> voteCount (table (snd (pollVotes blindEnv [''A''] storedWorld))) ''x'' = Some 5"
proof -
  have h1: "http blindEnv (clock storedWorld) ''A'' =
              Response True ''OK'' (VotersArray [\<lparr>nickname = ''x'', votes = 2\<rparr>])"
    by (simp add: blindEnv_def)
  have h2: "onSelect blindEnv (Suc (clock storedWorld)) = Failed ''read timeout''"
    by (simp add: blindEnv_def)
  have h3: "rowFailures blindEnv (Suc (Suc (clock storedWorld))) [\<lparr>nickname = ''x'', votes = 2\<rparr>] = []"
    by (simp add: blindEnv_def)
  have v: "voteCount (applyRows [\<lparr>nickname = ''x'', votes = 2\<rparr>] (table storedWorld)) ''x'' = Some 5"
    by (simp add: storedWorld_def voteCount_def)
  have v0: "voteCount (table storedWorld) ''x'' = Some 3"
    by (simp add: storedWorld_def voteCount_def)
  show ?thesis
    using failed_read_all_novel [OF h1 h2] h1 h2 h3 v v0 by simp
qed

section \<open>A batch that is carried out in part\<close>

text \<open>
  C8, as the code has it. Whatever the database answers to the statements of a batch, and
  whenever, \<^verbatim>\<open>saveVotesToDatabase\<close> returns normally and hands nothing back. The console
  receives exactly one line for the whole batch: \<^verbatim>\<open>New votes saved\<close> when no statement is
  rejected, otherwise a single error line with the message of the rejection that arrives
  first (a rejected statement before which no rejected statement settles). The call
  returns at that moment: the carried-out statements that have settled by then are in the
  table, the other carried-out statements are in flight. Once they have landed, the table
  stores for every nickname what the carried-out statements leave behind, as if the
  rejected ones had not been issued.
\<close>

theorem partial_batch:
  "fst (saveVotesToDatabase e vs s) = Inr ()
   \<and> trace (snd (saveVotesToDatabase e vs s)) =
       trace s @ map (\<lambda>v. InsertVote (nickname v) (votes v)) vs @
       [Console (case firstRejection (promisesOf e (clock s) vs) of
                   None \<Rightarrow> NewVotesSaved
                 | Some (a, m) \<Rightarrow> ErrorSavingVotes m)]
   \<and> (\<forall>a m. firstRejection (promisesOf e (clock s) vs) = Some (a, m) \<longrightarrow>
         (\<exists>p\<in>set (promisesOf e (clock s) vs). answer p = Failed m \<and> settlesAfter p = a)
         \<and> (\<forall>q\<in>set (promisesOf e (clock s) vs). answer q \<noteq> Done \<longrightarrow> a \<le> settlesAfter q))
   \<and> table (snd (saveVotesToDatabase e vs s)) =
       applyRows (landed (promisesOf e (clock s) vs)) (table s)
   \<and> inflight (snd (saveVotesToDatabase e vs s)) =
       inflight s @ flying (promisesOf e (clock s) vs)
   \<and> sameCounts (settled (snd (saveVotesToDatabase e vs s)))
        (applyRows (okRows e (clock s) vs) (settled s))"
  using firstRejection_Some [of "promisesOf e (clock s) vs"] save_settled [of e vs s]
  by (simp add: save_result save_table save_inflight save_trace)

theorem partial_batch_witness:
  "fst (saveVotesToDatabase partialEnv threeRows emptyWorld) = Inr ()
   \<and> firstRejection (promisesOf partialEnv (clock emptyWorld) threeRows) = Some (1, ''deadlock'')
   \<and> trace (snd (saveVotesToDatabase partialEnv threeRows emptyWorld)) =
       [InsertVote ''a'' 1, InsertVote ''b'' 2, InsertVote ''c'' 3,
        Console (ErrorSavingVotes ''deadlock'')]
   \<and> table (snd (saveVotesToDatabase partialEnv threeRows emptyWorld)) = []
   \<and> inflight (snd (saveVotesToDatabase partialEnv threeRows emptyWorld)) =
       [(1, \<lparr>nickname = ''b'', votes = 2\<rparr>)]
   \<and> settled (snd (saveVotesToDatabase partialEnv threeRows emptyWorld)) = [(''b'', 2)]
   \<and> applyRows (okRows partialEnv (clock emptyWorld) threeRows) (settled emptyWorld) = [(''b'', 2)]"
proof -
  have fr: "firstRejection (promisesOf partialEnv (clock emptyWorld) threeRows) = Some (1, ''deadlock'')"
    by (simp add: partialEnv_def threeRows_def emptyWorld_def)
  have ld: "landed (promisesOf partialEnv (clock emptyWorld) threeRows) = []"
    by (simp add: landed_def settledWhen_def fr) (simp add: partialEnv_def threeRows_def emptyWorld_def)
  have fl: "flying (promisesOf partialEnv (clock emptyWorld) threeRows) =
              [(1, \<lparr>nickname = ''b'', votes = 2\<rparr>)]"
    by (simp add: flying_def settledWhen_def fr) (simp add: partialEnv_def threeRows_def emptyWorld_def)
  have ok: "okRows partialEnv (clock emptyWorld) threeRows = [\<lparr>nickname = ''b'', votes = 2\<rparr>]"
    by (simp add: partialEnv_def threeRows_def emptyWorld_def)
  have tb: "table (snd (saveVotesToDatabase partialEnv threeRows emptyWorld)) = []"
    and ifl: "inflight (snd (saveVotesToDatabase partialEnv threeRows emptyWorld)) =
                [(1, \<lparr>nickname = ''b'', votes = 2\<rparr>)]"
    using partial_batch [of partialEnv threeRows emptyWorld]
    by (simp_all add: ld fl) (simp_all add: emptyWorld_def)
  have tr: "trace (snd (saveVotesToDatabase partialEnv threeRows emptyWorld)) =
       [InsertVote ''a'' 1, InsertVote ''b'' 2, InsertVote ''c'' 3,
        Console (ErrorSavingVotes ''deadlock'')]"
    using partial_batch [of partialEnv threeRows emptyWorld]
    by (simp add: fr) (simp add: threeRows_def emptyWorld_def)
  have st: "settled (snd (saveVotesToDatabase partialEnv threeRows emptyWorld)) = [(''b'', 2)]"
    by (simp add: settled_def tb ifl)
  have ok': "applyRows (okRows partialEnv (clock emptyWorld) threeRows) (settled emptyWorld) =
               [(''b'', 2)]"
    by (simp add: ok) (simp add: settled_def emptyWorld_def)
  have r: "fst (saveVotesToDatabase partialEnv threeRows emptyWorld) = Inr ()"
    using partial_batch [of partialEnv threeRows emptyWorld] by blast
  show ?thesis
    using r fr tr tb ifl st ok' by blast
qed

text \<open>
  C8 as stated fails. Of three rows the first and the third are rejected. The call
  returns the same value as for a batch carried out in full, so the caller observes
  nothing; and the two failures are reported by one console line, not one per row.
\<close>

theorem partial_batch_counterexample:
  "length (rowFailures partialEnv (clock emptyWorld) threeRows) = 2
   \<and> length (filter isSaveError
        (trace (snd (saveVotesToDatabase partialEnv threeRows emptyWorld)))) = 1
   \<and> fst (saveVotesToDatabase partialEnv threeRows emptyWorld) =
       fst (saveVotesToDatabase quietEnv threeRows emptyWorld)"
  by (simp add: save_result save_trace)
     (simp add: partialEnv_def threeRows_def emptyWorld_def isSaveError_def)

section \<open>Stored counts over the operations\<close>

lemma initLoop_table: "table (snd (initLoop e retries s)) = table s"
proof (induction e retries s rule: initLoop.induct)
  case (1 e retries s)
  show ?case
  proof (cases "retries < maxRetries")
    case False
    then show ?thesis by (subst initLoop.simps) simp
  next
    case True
    show ?thesis
    proof (cases "onCreate e (clock s)")
      case Done
      with True show ?thesis
        by (subst initLoop.simps) (simp add: db_create_def Let_def)
    next
      case (Failed msg)
      have c: "db_create e s = (Inl msg, tick (emit CreateTable s))"
        using Failed by (simp add: db_create_def Let_def)
      show ?thesis
        using True c "1.IH" [OF True c [symmetric] refl refl refl]
        by (subst initLoop.simps) (simp add: Let_def)
    qed
  qed
qed

lemma neverLowered_refl: "neverLowered rs rs"
  by (simp add: neverLowered_def)

lemma neverLowered_trans:
  "neverLowered a b \<Longrightarrow> neverLowered b c \<Longrightarrow> neverLowered a c"
  unfolding neverLowered_def by (meson order_trans)

lemma neverLowered_upsert: "0 \<le> v \<Longrightarrow> neverLowered rs (upsert n v rs)"
  by (auto simp: neverLowered_def voteCount_upsert)

lemma nonNegative_upsert: "0 \<le> v \<Longrightarrow> nonNegative rs \<Longrightarrow> nonNegative (upsert n v rs)"
  by (auto simp: nonNegative_def voteCount_upsert split: option.splits if_splits)

lemma neverLowered_applyRows:
  "\<forall>v\<in>set vs. 0 \<le> votes v \<Longrightarrow> neverLowered rs (applyRows vs rs)"
proof (induction vs arbitrary: rs)
  case Nil
  show ?case by (simp add: neverLowered_refl)
next
  case (Cons v vs)
  have "neverLowered rs (upsert (nickname v) (votes v) rs)"
    using Cons.prems by (simp add: neverLowered_upsert)
  moreover have "neverLowered (upsert (nickname v) (votes v) rs)
                   (applyRows vs (upsert (nickname v) (votes v) rs))"
    using Cons.IH Cons.prems by simp
  ultimately show ?case
    using neverLowered_trans by simp
qed

lemma nonNegative_applyRows:
  "\<forall>v\<in>set vs. 0 \<le> votes v \<Longrightarrow> nonNegative rs \<Longrightarrow> nonNegative (applyRows vs rs)"
  by (induction vs arbitrary: rs) (simp_all add: nonNegative_upsert)

lemma set_novel: "set (novel snap voters) \<subseteq> set voters"
  by (auto simp: novel_def)

lemma read_keeps:
  assumes "\<forall>p\<in>set (inflight s). 0 \<le> votes (snd p)"
  shows "neverLowered (table s) (readTable e t s)"
    and "nonNegative (table s) \<Longrightarrow> nonNegative (readTable e t s)"
    and "\<forall>p\<in>set (readFlight e t s). 0 \<le> votes (snd p)"
proof -
  have pos: "\<forall>v\<in>set (map snd (filter (\<lambda>(i, v). landedBy e i t) (inflight s))). 0 \<le> votes v"
    using assms by auto
  show "neverLowered (table s) (readTable e t s)"
    using neverLowered_applyRows [OF pos]
    by (simp add: readTable_def seenAt_def neverLowered_refl split: db_outcome.splits)
  show "nonNegative (table s) \<Longrightarrow> nonNegative (readTable e t s)"
    using nonNegative_applyRows [OF pos]
    by (simp add: readTable_def seenAt_def split: db_outcome.splits)
  show "\<forall>p\<in>set (readFlight e t s). 0 \<le> votes (snd p)"
    using assms set_readFlight by blast
qed

lemma fetch_keeps:
  assumes "\<forall>t u ok st voters.
             http e t u = Response ok st (VotersArray voters) \<longrightarrow> (\<forall>v\<in>set voters. 0 \<le> votes v)"
    and "\<forall>p\<in>set (inflight s). 0 \<le> votes (snd p)"
  shows "neverLowered (table s) (table (snd (fetchVotesFromApi e u s)))
       \<and> (nonNegative (table s) \<longrightarrow> nonNegative (table (snd (fetchVotesFromApi e u s))))
       \<and> (\<forall>p\<in>set (inflight (snd (fetchVotesFromApi e u s))). 0 \<le> votes (snd p))"
proof (cases "\<exists>st voters. http e (clock s) u = Response True st (VotersArray voters)")
  case True
  then obtain st voters where h: "http e (clock s) u = Response True st (VotersArray voters)"
    by blast
  define nv where "nv = novel (snapshotAt e (Suc (clock s)) (seenAt e (Suc (clock s)) s)) voters"
  define ps where "ps = promisesOf e (Suc (Suc (clock s))) nv"
  have vpos: "\<forall>v\<in>set voters. 0 \<le> votes v"
    using assms(1) h by blast
  have nvsub: "set nv \<subseteq> set voters"
    unfolding nv_def by (rule set_novel)
  have lpos: "\<forall>v\<in>set (landed ps). 0 \<le> votes v"
    using set_landed [of e "Suc (Suc (clock s))" nv] nvsub vpos unfolding ps_def by blast
  have fpos: "\<forall>p\<in>set (flying ps). 0 \<le> votes (snd p)"
    using set_flying [of e "Suc (Suc (clock s))" nv] nvsub vpos unfolding ps_def by blast
  have tb: "table (snd (fetchVotesFromApi e u s)) =
              applyRows (landed ps) (readTable e (Suc (clock s)) s)"
    using fetch_array(2) [OF h] by (simp add: ps_def nv_def)
  have fl: "inflight (snd (fetchVotesFromApi e u s)) = readFlight e (Suc (clock s)) s @ flying ps"
    using fetch_array(3) [OF h] by (simp add: ps_def nv_def)
  have a: "neverLowered (table s) (table (snd (fetchVotesFromApi e u s)))"
    unfolding tb
    using neverLowered_trans [OF read_keeps(1) [OF assms(2)] neverLowered_applyRows [OF lpos]] .
  have b: "nonNegative (table s) \<Longrightarrow> nonNegative (table (snd (fetchVotesFromApi e u s)))"
    unfolding tb
    using nonNegative_applyRows [OF lpos] read_keeps(2) [OF assms(2)] by blast
  have c: "\<forall>p\<in>set (inflight (snd (fetchVotesFromApi e u s))). 0 \<le> votes (snd p)"
    unfolding fl using read_keeps(3) [OF assms(2)] fpos by auto
  show ?thesis
    using a b c by blast
next
  case False
  then show ?thesis
    using fetch_not_array(2,6) [of e s u] assms(2) by (simp add: neverLowered_refl)
qed

lemma pollEach_keeps:
  assumes "\<forall>t u ok st voters.
             http e t u = Response ok st (VotersArray voters) \<longrightarrow> (\<forall>v\<in>set voters. 0 \<le> votes v)"
  shows "(\<forall>p\<in>set (inflight s). 0 \<le> votes (snd p)) \<Longrightarrow>
         neverLowered (table s) (table (snd (pollEach e us acc s)))
       \<and> (nonNegative (table s) \<longrightarrow> nonNegative (table (snd (pollEach e us acc s))))
       \<and> (\<forall>p\<in>set (inflight (snd (pollEach e us acc s))). 0 \<le> votes (snd p))"
proof (induction us arbitrary: acc s)
  case Nil
  then show ?case by (simp add: neverLowered_refl)
next
  case (Cons u us)
  define sp where "sp = emit (Console (PollingApi u)) s"
  define s1 where "s1 = snd (fetchVotesFromApi e u sp)"
  have fp: "\<forall>p\<in>set (inflight sp). 0 \<le> votes (snd p)"
    using Cons.prems by (simp add: sp_def)
  have st: "neverLowered (table s) (table s1)
            \<and> (nonNegative (table s) \<longrightarrow> nonNegative (table s1))
            \<and> (\<forall>p\<in>set (inflight s1). 0 \<le> votes (snd p))"
    using fetch_keeps [OF assms fp, of u] by (simp add: sp_def s1_def)
  show ?case
    unfolding pollEach_Cons sp_def [symmetric] s1_def [symmetric]
    using Cons.IH [of s1 "acc @ projr (fst (fetchVotesFromApi e u sp))"] st neverLowered_trans
    by blast
qed

lemma save_keeps:
  assumes "\<forall>v\<in>set vs. 0 \<le> votes v"
  shows "neverLowered (table s) (table (snd (saveVotesToDatabase e vs s)))"
    and "nonNegative (table s) \<Longrightarrow> nonNegative (table (snd (saveVotesToDatabase e vs s)))"
proof -
  have pos: "\<forall>v\<in>set (landed (promisesOf e (clock s) vs)). 0 \<le> votes v"
    using assms set_landed by blast
  show "neverLowered (table s) (table (snd (saveVotesToDatabase e vs s)))"
    using neverLowered_applyRows [OF pos] by (simp add: save_table)
  show "nonNegative (table s) \<Longrightarrow> nonNegative (table (snd (saveVotesToDatabase e vs s)))"
    using nonNegative_applyRows [OF pos] by (simp add: save_table)
qed

text \<open>
  C9, as the code has it. The code does not check the sign of a fetched \<^verbatim>\<open>votes\<close> value.
  When no voters payload of any source holds a negative \<^verbatim>\<open>votes\<close> value, and no statement
  in flight carries one, no operation of the core lowers a stored count or loses a
  nickname, and stored counts that were all at least 0 stay so: this holds for a fetch
  of one source and for a whole cycle, also once the statements left in flight by the
  cycle have landed; for a save of any batch without negative values; for a read of the
  stored votes, which leaves the table as it is when nothing is in flight; and
  \<^verbatim>\<open>initializeDatabase\<close> leaves the table as it is.
\<close>

theorem counts_never_lowered:
  assumes "\<forall>t u ok st voters.
             http e t u = Response ok st (VotersArray voters) \<longrightarrow> (\<forall>v\<in>set voters. 0 \<le> votes v)"
    and "\<forall>p\<in>set (inflight s). 0 \<le> votes (snd p)"
  shows "neverLowered (table s) (table (snd (pollVotes e urls s)))
       \<and> (nonNegative (table s) \<longrightarrow> nonNegative (table (snd (pollVotes e urls s))))
       \<and> neverLowered (table s) (settled (snd (pollVotes e urls s)))
       \<and> (nonNegative (table s) \<longrightarrow> nonNegative (settled (snd (pollVotes e urls s))))
       \<and> neverLowered (table s) (table (snd (fetchVotesFromApi e u s)))
       \<and> (nonNegative (table s) \<longrightarrow> nonNegative (table (snd (fetchVotesFromApi e u s))))
       \<and> ((\<forall>v\<in>set vs. 0 \<le> votes v) \<longrightarrow>
            neverLowered (table s) (table (snd (saveVotesToDatabase e vs s)))
            \<and> (nonNegative (table s) \<longrightarrow> nonNegative (table (snd (saveVotesToDatabase e vs s)))))
       \<and> table (snd (initializeDatabase e s)) = table s
       \<and> neverLowered (table s) (table (snd (getStoredVotes e s)))
       \<and> (nonNegative (table s) \<longrightarrow> nonNegative (table (snd (getStoredVotes e s))))
       \<and> (inflight s = [] \<longrightarrow> table (snd (getStoredVotes e s)) = table s)"
proof -
  define s' where "s' = snd (pollEach e urls [] s)"
  have cyc: "neverLowered (table s) (table s')
             \<and> (nonNegative (table s) \<longrightarrow> nonNegative (table s'))
             \<and> (\<forall>p\<in>set (inflight s'). 0 \<le> votes (snd p))"
    using pollEach_keeps [OF assms(1), of s urls "[]"] assms(2) by (simp add: s'_def)
  have fpos: "\<forall>v\<in>set (map snd (inflight s')). 0 \<le> votes v"
    using cyc by auto
  have later: "neverLowered (table s) (settled s')
               \<and> (nonNegative (table s) \<longrightarrow> nonNegative (settled s'))"
    using cyc neverLowered_trans [OF _ neverLowered_applyRows [OF fpos]]
          nonNegative_applyRows [OF fpos]
    by (auto simp: settled_def)
  have rd: "neverLowered (table s) (table (snd (getStoredVotes e s)))
            \<and> (nonNegative (table s) \<longrightarrow> nonNegative (table (snd (getStoredVotes e s))))
            \<and> (inflight s = [] \<longrightarrow> table (snd (getStoredVotes e s)) = table s)"
    using read_keeps(1,2) [OF assms(2), of e "clock s"] readTable_nothing_flying [of s e "clock s"]
    by (auto simp: getStoredVotes_table)
  show ?thesis
    using cyc later rd fetch_keeps [OF assms, of u] save_keeps [of vs s e]
    by (simp add: pollVotes_table pollVotes_settled initializeDatabase_def initLoop_table
                  s'_def [symmetric])
qed

theorem counts_never_lowered_witness:
  "\<not> (\<exists>t u ok st voters v. http exampleEnv t u = Response ok st (VotersArray voters)
          \<and> v \<in> set voters \<and> votes v < 0)
   \<and> inflight storedWorld = []
   \<and> nonNegative (table storedWorld)
   \<and> table (snd (pollVotes exampleEnv [''A'', ''B''] storedWorld)) = [(''x'', 3), (''y'', 1)]
   \<and> neverLowered (table storedWorld) (table (snd (pollVotes exampleEnv [''A'', ''B''] storedWorld)))
   \<and> nonNegative (table (snd (pollVotes exampleEnv [''A'', ''B''] storedWorld)))"
proof -
  have h: "\<forall>t u ok st voters.
             http exampleEnv t u = Response ok st (VotersArray voters)
             \<longrightarrow> (\<forall>v\<in>set voters. 0 \<le> votes v)"
    by (auto simp: exampleEnv_def split: if_splits)
  then have h': "\<not> (\<exists>t u ok st voters v. http exampleEnv t u = Response ok st (VotersArray voters)
                    \<and> v \<in> set voters \<and> votes v < 0)"
    by (meson not_less)
  have f: "inflight storedWorld = []"
    by (simp add: storedWorld_def)
  then have f': "\<forall>p\<in>set (inflight storedWorld). 0 \<le> votes (snd p)"
    by simp
  have n: "nonNegative (table storedWorld)"
    by (auto simp: nonNegative_def voteCount_def storedWorld_def split: if_splits)
  have tb: "table (snd (pollVotes exampleEnv [''A'', ''B''] storedWorld)) = [(''x'', 3), (''y'', 1)]"
    by (simp add: run_defs exampleEnv_def storedWorld_def)
  show ?thesis
    using counts_never_lowered [OF h f', of "[''A'', ''B'']" "''A''" "[]"] h' f n tb
    by simp
qed

text \<open>
  C9 as stated fails for payloads with negative values. From an empty store, a source that
  reports \<open>{x, -1}\<close> leaves \<open>x\<close> stored with \<open>-1\<close>. A source that reports \<open>{x, 5}\<close> and then
  \<open>{x, -3}\<close> has both inserted and leaves \<open>x\<close> at 2; the second of the two statements lowers
  the stored count from 5 to 2.
\<close>

theorem counts_never_lowered_counterexample:
  "nonNegative (table emptyWorld)
   \<and> voteCount (table (snd (pollVotes negativeEnv [''N''] emptyWorld))) ''x'' = Some (- 1)
   \<and> \<not> nonNegative (table (snd (pollVotes negativeEnv [''N''] emptyWorld)))
   \<and> inserted (trace (snd (pollVotes negativeEnv [''M''] emptyWorld))) = [(''x'', 5), (''x'', - 3)]
   \<and> table (snd (pollVotes negativeEnv [''M''] emptyWorld)) = [(''x'', 2)]
   \<and> \<not> neverLowered
          (table (snd (saveVotesToDatabase negativeEnv [\<lparr>nickname = ''x'', votes = 5\<rparr>] emptyWorld)))
          (table (snd (saveVotesToDatabase negativeEnv [\<lparr>nickname = ''x'', votes = - 3\<rparr>]
             (snd (saveVotesToDatabase negativeEnv [\<lparr>nickname = ''x'', votes = 5\<rparr>] emptyWorld)))))"
proof -
  have e: "nonNegative (table emptyWorld)"
    by (simp add: nonNegative_def voteCount_def emptyWorld_def)
  have tn: "table (snd (pollVotes negativeEnv [''N''] emptyWorld)) = [(''x'', - 1)]"
    by (simp add: run_defs negativeEnv_def emptyWorld_def)
  have neg: "\<not> nonNegative [(''x'', - 1)]"
    by (auto simp: nonNegative_def voteCount_def)
  have tm: "table (snd (pollVotes negativeEnv [''M''] emptyWorld)) = [(''x'', 2)]"
    by (simp add: run_defs negativeEnv_def emptyWorld_def)
  have im: "inserted (trace (snd (pollVotes negativeEnv [''M''] emptyWorld))) =
              [(''x'', 5), (''x'', - 3)]"
    by (simp add: run_defs negativeEnv_def emptyWorld_def inserted_def)
  have s1: "table (snd (saveVotesToDatabase negativeEnv [\<lparr>nickname = ''x'', votes = 5\<rparr>] emptyWorld))
              = [(''x'', 5)]"
    by (simp add: save_table landed_def settledWhen_def negativeEnv_def emptyWorld_def)
  have s2: "table (snd (saveVotesToDatabase negativeEnv [\<lparr>nickname = ''x'', votes = - 3\<rparr>]
             (snd (saveVotesToDatabase negativeEnv [\<lparr>nickname = ''x'', votes = 5\<rparr>] emptyWorld))))
              = [(''x'', 2)]"
    by (simp add: save_table save_clock landed_def settledWhen_def negativeEnv_def
                  emptyWorld_def)
  have low: "\<not> neverLowered [(''x'', 5)] [(''x'', 2)]"
    by (auto simp: neverLowered_def voteCount_def)
  show ?thesis
    unfolding tn tm im s1 s2 using e neg low by (simp add: voteCount_def)
qed


section \<open>Reads and saves of a cycle\<close>

lemma selects_Console [simp]: "selects [Console l] = 0"
  by (simp add: selects_def)

lemma inserted_Console [simp]: "inserted [Console l] = []"
  by (simp add: inserted_def)

lemma saveCalls_PollingApi [simp]: "saveCalls [Console (PollingApi u)] = 0"
  by (simp add: saveCalls_def isSaveEnd_def)

lemma saveCalls_TotalNewVotes [simp]: "saveCalls [Console (TotalNewVotes u)] = 0"
  by (simp add: saveCalls_def isSaveEnd_def)

lemma pollEach_selects_le:
  "selects (trace (snd (pollEach e us acc s))) \<le> selects (trace s) + length us"
proof (induction us arbitrary: acc s)
  case Nil
  show ?case by simp
next
  case (Cons u us)
  define sp where "sp = emit (Console (PollingApi u)) s"
  have "selects (trace (snd (fetchVotesFromApi e u sp))) \<le> Suc (selects (trace s))"
    using fetch_counts_le(1) [of e u sp] by (simp add: sp_def)
  then show ?case
    unfolding pollEach_Cons sp_def [symmetric]
    using Cons.IH [of "acc @ projr (fst (fetchVotesFromApi e u sp))" "snd (fetchVotesFromApi e u sp)"]
    by simp
qed

lemma pollEach_saveCalls_le:
  "saveCalls (trace (snd (pollEach e us acc s))) \<le> saveCalls (trace s) + length us"
proof (induction us arbitrary: acc s)
  case Nil
  show ?case by simp
next
  case (Cons u us)
  define sp where "sp = emit (Console (PollingApi u)) s"
  have "saveCalls (trace (snd (fetchVotesFromApi e u sp))) \<le> Suc (saveCalls (trace s))"
    using fetch_counts_le(2) [of e u sp] by (simp add: sp_def)
  then show ?case
    unfolding pollEach_Cons sp_def [symmetric]
    using Cons.IH [of "acc @ projr (fst (fetchVotesFromApi e u sp))" "snd (fetchVotesFromApi e u sp)"]
    by simp
qed

lemma pollEach_selects_eq:
  assumes "\<forall>t. \<forall>u\<in>set us. \<exists>st voters. http e t u = Response True st (VotersArray voters)"
  shows "selects (trace (snd (pollEach e us acc s))) = selects (trace s) + length us"
  using assms
proof (induction us arbitrary: acc s)
  case Nil
  show ?case by simp
next
  case (Cons u us)
  define sp where "sp = emit (Console (PollingApi u)) s"
  obtain st voters where "http e (clock sp) u = Response True st (VotersArray voters)"
    using Cons.prems by (meson list.set_intros(1))
  then have "selects (trace (snd (fetchVotesFromApi e u sp))) = Suc (selects (trace s))"
    using fetch_array_counts(1) [of e sp u] by (simp add: sp_def)
  moreover have "\<forall>t. \<forall>u\<in>set us. \<exists>st voters. http e t u = Response True st (VotersArray voters)"
    using Cons.prems by simp
  ultimately show ?case
    unfolding pollEach_Cons sp_def [symmetric]
    using Cons.IH [of "acc @ projr (fst (fetchVotesFromApi e u sp))" "snd (fetchVotesFromApi e u sp)"]
    by simp
qed

lemma pollEach_inserted:
  assumes "inserted (trace s) = pre @ map asRow acc"
  shows "inserted (trace (snd (pollEach e us acc s))) = pre @ map asRow (fst (pollEach e us acc s))"
  using assms
proof (induction us arbitrary: acc s)
  case Nil
  then show ?case by simp
next
  case (Cons u us)
  define sp where "sp = emit (Console (PollingApi u)) s"
  have "inserted (trace (snd (fetchVotesFromApi e u sp))) =
          pre @ map asRow (acc @ projr (fst (fetchVotesFromApi e u sp)))"
    using fetch_inserted [of e u sp] Cons.prems by (simp add: sp_def)
  then show ?case
    unfolding pollEach_Cons sp_def [symmetric]
    using Cons.IH by blast
qed

text \<open>
  C1, as the code has it. The snapshot is taken for each source, after its fetch, not
  once for the cycle: a source that answers with a voters array (fetched from any world
  \<open>w\<close>) has its records filtered against the snapshot read for it at that moment, which
  holds what earlier sources saved as far as it has landed by then; its new records are
  handed to \<^verbatim>\<open>saveVotesToDatabase\<close> before the loop goes on, from the world so reached, to
  the next source. When no statement of that batch is rejected the records are in the
  table by then; in any case, once the statements in flight have landed the table stores
  what the carried-out statements leave behind. So a cycle reads the stored votes at most
  once per source, and exactly once per source when every listed source answers with a
  voters array; it calls \<^verbatim>\<open>saveVotesToDatabase\<close> at most once per source, not once for the
  cycle. It never throws, and the records it returns are exactly the records for which
  an insert statement was issued during the cycle, in the same order.
\<close>

theorem per_source_snapshot_and_save:
  "selects (trace (snd (pollVotes e urls s))) \<le> selects (trace s) + length urls
   \<and> ((\<forall>t. \<forall>u\<in>set urls. \<exists>st voters. http e t u = Response True st (VotersArray voters))
        \<longrightarrow> selects (trace (snd (pollVotes e urls s))) = selects (trace s) + length urls)
   \<and> saveCalls (trace (snd (pollVotes e urls s))) \<le> saveCalls (trace s) + length urls
   \<and> (\<exists>r. fst (pollVotes e urls s) = Inr r
          \<and> inserted (trace (snd (pollVotes e urls s))) = inserted (trace s) @ map asRow r)
   \<and> (http e (clock w) u = Response True st (VotersArray voters) \<longrightarrow>
        fst (fetchVotesFromApi e u w) =
          Inr (novel (snapshotAt e (Suc (clock w)) (seenAt e (Suc (clock w)) w)) voters)
        \<and> sameCounts (settled (snd (fetchVotesFromApi e u w)))
             (applyRows (okRows e (Suc (Suc (clock w)))
                          (novel (snapshotAt e (Suc (clock w)) (seenAt e (Suc (clock w)) w)) voters))
                (settled w))
        \<and> (rowFailures e (Suc (Suc (clock w)))
              (novel (snapshotAt e (Suc (clock w)) (seenAt e (Suc (clock w)) w)) voters) = [] \<longrightarrow>
            table (snd (fetchVotesFromApi e u w)) =
              applyRows (novel (snapshotAt e (Suc (clock w)) (seenAt e (Suc (clock w)) w)) voters)
                (readTable e (Suc (clock w)) w)))
   \<and> pollEach e (u # rest) acc w =
       pollEach e rest
         (acc @ projr (fst (fetchVotesFromApi e u (emit (Console (PollingApi u)) w))))
         (snd (fetchVotesFromApi e u (emit (Console (PollingApi u)) w)))"
proof -
  have tr: "trace (snd (pollVotes e urls s)) =
              trace (snd (pollEach e urls [] s)) @ [Console (TotalNewVotes (fst (pollEach e urls [] s)))]"
    by (simp add: pollVotes_def case_prod_beta)
  have ins: "inserted (trace (snd (pollEach e urls [] s))) =
               inserted (trace s) @ map asRow (fst (pollEach e urls [] s))"
    using pollEach_inserted [of s "inserted (trace s)" "[]" e urls] by simp
  have counts:
    "selects (trace (snd (pollVotes e urls s))) \<le> selects (trace s) + length urls
     \<and> ((\<forall>t. \<forall>u\<in>set urls. \<exists>st voters. http e t u = Response True st (VotersArray voters))
          \<longrightarrow> selects (trace (snd (pollVotes e urls s))) = selects (trace s) + length urls)
     \<and> saveCalls (trace (snd (pollVotes e urls s))) \<le> saveCalls (trace s) + length urls
     \<and> (\<exists>r. fst (pollVotes e urls s) = Inr r
            \<and> inserted (trace (snd (pollVotes e urls s))) = inserted (trace s) @ map asRow r)"
    using pollEach_selects_le [of e urls "[]" s] pollEach_saveCalls_le [of e urls "[]" s]
          pollEach_selects_eq [of urls e "[]" s] ins
    by (simp add: tr pollVotes_result)
  have step: "http e (clock w) u = Response True st (VotersArray voters) \<longrightarrow>
        fst (fetchVotesFromApi e u w) =
          Inr (novel (snapshotAt e (Suc (clock w)) (seenAt e (Suc (clock w)) w)) voters)
        \<and> sameCounts (settled (snd (fetchVotesFromApi e u w)))
             (applyRows (okRows e (Suc (Suc (clock w)))
                          (novel (snapshotAt e (Suc (clock w)) (seenAt e (Suc (clock w)) w)) voters))
                (settled w))
        \<and> (rowFailures e (Suc (Suc (clock w)))
              (novel (snapshotAt e (Suc (clock w)) (seenAt e (Suc (clock w)) w)) voters) = [] \<longrightarrow>
            table (snd (fetchVotesFromApi e u w)) =
              applyRows (novel (snapshotAt e (Suc (clock w)) (seenAt e (Suc (clock w)) w)) voters)
                (readTable e (Suc (clock w)) w))"
  proof
    assume h: "http e (clock w) u = Response True st (VotersArray voters)"
    define nv where "nv = novel (snapshotAt e (Suc (clock w)) (seenAt e (Suc (clock w)) w)) voters"
    have a: "fst (fetchVotesFromApi e u w) = Inr nv"
      using fetch_array(1) [OF h] by (simp add: nv_def)
    have b: "sameCounts (settled (snd (fetchVotesFromApi e u w)))
               (applyRows (okRows e (Suc (Suc (clock w))) nv) (settled w))"
      using fetch_settled [OF h] by (simp add: nv_def)
    have c: "table (snd (fetchVotesFromApi e u w)) = applyRows nv (readTable e (Suc (clock w)) w)"
      if "rowFailures e (Suc (Suc (clock w))) nv = []"
      using fetch_array(2) [OF h] none_rejected(1) [OF that] by (simp add: nv_def)
    show "fst (fetchVotesFromApi e u w) =
          Inr (novel (snapshotAt e (Suc (clock w)) (seenAt e (Suc (clock w)) w)) voters)
        \<and> sameCounts (settled (snd (fetchVotesFromApi e u w)))
             (applyRows (okRows e (Suc (Suc (clock w)))
                          (novel (snapshotAt e (Suc (clock w)) (seenAt e (Suc (clock w)) w)) voters))
                (settled w))
        \<and> (rowFailures e (Suc (Suc (clock w)))
              (novel (snapshotAt e (Suc (clock w)) (seenAt e (Suc (clock w)) w)) voters) = [] \<longrightarrow>
            table (snd (fetchVotesFromApi e u w)) =
              applyRows (novel (snapshotAt e (Suc (clock w)) (seenAt e (Suc (clock w)) w)) voters)
                (readTable e (Suc (clock w)) w))"
      using a b c unfolding nv_def by blast
  qed
  show ?thesis
    using counts step pollEach_Cons [of e u rest acc w] by blast
qed

theorem per_source_snapshot_and_save_witness:
  "(\<forall>t u. \<exists>st voters. http steadyEnv t u = Response True st (VotersArray voters))
   \<and> http steadyEnv (clock emptyWorld) ''A'' =
       Response True ''OK'' (VotersArray [\<lparr>nickname = ''x'', votes = 2\<rparr>])
   \<and> rowFailures steadyEnv (Suc (Suc (clock emptyWorld))) [\<lparr>nickname = ''x'', votes = 2\<rparr>] = []
   \<and> fst (fetchVotesFromApi steadyEnv ''A'' emptyWorld) = Inr [\<lparr>nickname = ''x'', votes = 2\<rparr>]
   \<and> table (snd (fetchVotesFromApi steadyEnv ''A'' emptyWorld)) = [(''x'', 2)]
   \<and> selects (trace (snd (pollVotes steadyEnv [''A'', ''B''] emptyWorld))) = 2
   \<and> saveCalls (trace (snd (pollVotes steadyEnv [''A'', ''B''] emptyWorld))) \<le> 2
   \<and> inserted (trace (snd (pollVotes steadyEnv [''A'', ''B''] emptyWorld))) = [(''x'', 2)]
   \<and> fst (pollVotes steadyEnv [''A'', ''B''] emptyWorld) = Inr [\<lparr>nickname = ''x'', votes = 2\<rparr>]
   \<and> fst (pollVotes raceEnv [''A'', ''B''] emptyWorld) =
       Inr [\<lparr>nickname = ''a'', votes = 1\<rparr>, \<lparr>nickname = ''b'', votes = 2\<rparr>,
            \<lparr>nickname = ''b'', votes = 2\<rparr>]
   \<and> inserted (trace (snd (pollVotes raceEnv [''A'', ''B''] emptyWorld))) =
       [(''a'', 1), (''b'', 2), (''b'', 2)]
   \<and> table (snd (pollVotes raceEnv [''A'', ''B''] emptyWorld)) = [(''b'', 2)]
   \<and> settled (snd (pollVotes raceEnv [''A'', ''B''] emptyWorld)) = [(''b'', 4)]"
proof -
  have h: "\<forall>t u. \<exists>st voters. http steadyEnv t u = Response True st (VotersArray voters)"
    by (simp add: steadyEnv_def)
  then have hu: "\<forall>t. \<forall>u\<in>set [''A'', ''B'']. \<exists>st voters.
                   http steadyEnv t u = Response True st (VotersArray voters)"
    by blast
  have g: "http steadyEnv (clock emptyWorld) ''A'' =
             Response True ''OK'' (VotersArray [\<lparr>nickname = ''x'', votes = 2\<rparr>])"
    by (simp add: steadyEnv_def)
  have r: "fst (pollVotes steadyEnv [''A'', ''B''] emptyWorld) =
             Inr [\<lparr>nickname = ''x'', votes = 2\<rparr>]"
    by (simp add: run_defs steadyEnv_def emptyWorld_def)
  have sn: "novel (snapshotAt steadyEnv (Suc (clock emptyWorld))
                     (seenAt steadyEnv (Suc (clock emptyWorld)) emptyWorld))
              [\<lparr>nickname = ''x'', votes = 2\<rparr>] = [\<lparr>nickname = ''x'', votes = 2\<rparr>]"
    by (simp add: novel_def snapshotAt_def seenAt_def steadyEnv_def emptyWorld_def)
  have rf: "rowFailures steadyEnv (Suc (Suc (clock emptyWorld))) [\<lparr>nickname = ''x'', votes = 2\<rparr>] = []"
    by (simp add: steadyEnv_def)
  have rt: "readTable steadyEnv (Suc (clock emptyWorld)) emptyWorld = []"
    by (simp add: readTable_def seenAt_def steadyEnv_def emptyWorld_def)
  note T = per_source_snapshot_and_save
             [where e = steadyEnv and urls = "[''A'', ''B'']" and s = emptyWorld
                and w = emptyWorld and u = "''A''" and st = "''OK''"
                and voters = "[\<lparr>nickname = ''x'', votes = 2\<rparr>]" and rest = "[]" and acc = "[]"]
  have steady:
    "fst (fetchVotesFromApi steadyEnv ''A'' emptyWorld) = Inr [\<lparr>nickname = ''x'', votes = 2\<rparr>]
     \<and> table (snd (fetchVotesFromApi steadyEnv ''A'' emptyWorld)) = [(''x'', 2)]
     \<and> selects (trace (snd (pollVotes steadyEnv [''A'', ''B''] emptyWorld))) = 2
     \<and> saveCalls (trace (snd (pollVotes steadyEnv [''A'', ''B''] emptyWorld))) \<le> 2
     \<and> inserted (trace (snd (pollVotes steadyEnv [''A'', ''B''] emptyWorld))) = [(''x'', 2)]"
    using T hu g rf unfolding r sn rt
    by (simp add: emptyWorld_def asRow_def selects_def saveCalls_def inserted_def
             del: pollEach.simps(2))
  have race:
    "fst (pollVotes raceEnv [''A'', ''B''] emptyWorld) =
       Inr [\<lparr>nickname = ''a'', votes = 1\<rparr>, \<lparr>nickname = ''b'', votes = 2\<rparr>,
            \<lparr>nickname = ''b'', votes = 2\<rparr>]"
    "table (snd (pollVotes raceEnv [''A'', ''B''] emptyWorld)) = [(''b'', 2)]"
    "settled (snd (pollVotes raceEnv [''A'', ''B''] emptyWorld)) = [(''b'', 4)]"
    by (simp_all add: run_defs raceEnv_def emptyWorld_def settled_def)
  have raceIns: "inserted (trace (snd (pollVotes raceEnv [''A'', ''B''] emptyWorld))) =
       [(''a'', 1), (''b'', 2), (''b'', 2)]"
    using per_source_snapshot_and_save [where e = raceEnv and urls = "[''A'', ''B'']" and s = emptyWorld]
    unfolding race(1) by (auto simp: emptyWorld_def asRow_def inserted_def)
  show ?thesis
    using h g rf r steady race raceIns by blast
qed

text \<open>
  C1 as stated fails. In the cycle over \<open>A\<close> and \<open>B\<close> from an empty store, the stored votes
  are read twice, the second time after the first source's record was saved, and
  \<^verbatim>\<open>saveVotesToDatabase\<close> is called twice, once with \<open>[{x, 3}]\<close> and once with \<open>[{y, 1}]\<close>.
\<close>

theorem per_source_snapshot_and_save_counterexample:
  "selects (trace (snd (pollVotes exampleEnv [''A'', ''B''] emptyWorld))) = 2
   \<and> saveCalls (trace (snd (pollVotes exampleEnv [''A'', ''B''] emptyWorld))) = 2
   \<and> trace (snd (pollVotes exampleEnv [''A'', ''B''] emptyWorld)) =
       [Console (PollingApi ''A''), Console (FetchingVotesFrom ''A''), HttpGet ''A'',
        Console ApiResponseReceived, SelectVotes, Console (StoredVotesRetrieved []),
        Console (NewVotesToSave [\<lparr>nickname = ''x'', votes = 3\<rparr>]),
        InsertVote ''x'' 3, Console NewVotesSaved,
        Console (PollingApi ''B''), Console (FetchingVotesFrom ''B''), HttpGet ''B'',
        Console ApiResponseReceived, SelectVotes, Console (StoredVotesRetrieved [(''x'', 3)]),
        Console (NewVotesToSave [\<lparr>nickname = ''y'', votes = 1\<rparr>]),
        InsertVote ''y'' 1, Console NewVotesSaved,
        Console (TotalNewVotes [\<lparr>nickname = ''x'', votes = 3\<rparr>, \<lparr>nickname = ''y'', votes = 1\<rparr>])]"
proof -
  have tr: "trace (snd (pollVotes exampleEnv [''A'', ''B''] emptyWorld)) =
       [Console (PollingApi ''A''), Console (FetchingVotesFrom ''A''), HttpGet ''A'',
        Console ApiResponseReceived, SelectVotes, Console (StoredVotesRetrieved []),
        Console (NewVotesToSave [\<lparr>nickname = ''x'', votes = 3\<rparr>]),
        InsertVote ''x'' 3, Console NewVotesSaved,
        Console (PollingApi ''B''), Console (FetchingVotesFrom ''B''), HttpGet ''B'',
        Console ApiResponseReceived, SelectVotes, Console (StoredVotesRetrieved [(''x'', 3)]),
        Console (NewVotesToSave [\<lparr>nickname = ''y'', votes = 1\<rparr>]),
        InsertVote ''y'' 1, Console NewVotesSaved,
        Console (TotalNewVotes [\<lparr>nickname = ''x'', votes = 3\<rparr>, \<lparr>nickname = ''y'', votes = 1\<rparr>])]"
    by (simp add: run_defs exampleEnv_def emptyWorld_def)
  show ?thesis
    unfolding tr by (simp add: selects_def saveCalls_def isSaveEnd_def)
qed

section \<open>A source that fails among others\<close>









end
